theory Spec2Isabelle
  imports Complex_Main "HOL-Library.Sublist" "HOL-Library.Multiset"
begin

section \<open>Text of a chain-length file\<close>

text \<open>
  Both scripts read a file in text mode and call \<^verbatim>\<open>str.split()\<close>, \<^verbatim>\<open>str.strip()\<close>,
  \<^verbatim>\<open>str.isdigit()\<close> and \<^verbatim>\<open>int()\<close> on it. A file's text is modelled as a \<^typ>\<open>string\<close>
  whose characters are the code points below 256 of the decoded text; the Python
  predicates are written out for exactly these code points.
\<close>

definition isspace :: "char \<Rightarrow> bool" where
  \<comment> \<open>\<^verbatim>\<open>str.isspace\<close> on one code point below 256: TAB, LF, VT, FF, CR, the separators
      U+001C to U+001F, SPACE, U+0085 and U+00A0.\<close>
  "isspace c =
     (let n = (of_char c :: nat)
      in (9 \<le> n \<and> n \<le> 13) \<or> (28 \<le> n \<and> n \<le> 32) \<or> n = 133 \<or> n = 160)"

fun tokens :: "string \<Rightarrow> string \<Rightarrow> string list" where
  \<comment> \<open>the scan of \<^verbatim>\<open>str.split()\<close>: \<open>cur\<close> is the word read so far\<close>
  "tokens cur [] = (if cur = [] then [] else [cur])"
| "tokens cur (c # cs) =
     (if isspace c then (if cur = [] then tokens [] cs else cur # tokens [] cs)
      else tokens (cur @ [c]) cs)"

definition split :: "string \<Rightarrow> string list" where
  \<comment> \<open>\<^verbatim>\<open>s.split()\<close>: the maximal runs of non-whitespace characters, in order\<close>
  "split s = tokens [] s"

definition strip :: "string \<Rightarrow> string" where
  \<comment> \<open>\<^verbatim>\<open>s.strip()\<close>\<close>
  "strip s = rev (dropWhile isspace (rev (dropWhile isspace s)))"

definition decimal_char :: "char \<Rightarrow> bool" where
  \<comment> \<open>the code points below 256 that \<^verbatim>\<open>int()\<close> reads as a digit: \<^verbatim>\<open>0\<close> to \<^verbatim>\<open>9\<close>\<close>
  "decimal_char c = (let n = (of_char c :: nat) in 48 \<le> n \<and> n \<le> 57)"

definition digit_char :: "char \<Rightarrow> bool" where
  \<comment> \<open>the code points below 256 on which \<^verbatim>\<open>str.isdigit\<close> holds: the decimal digits and
      the superscript digits U+00B2, U+00B3 and U+00B9\<close>
  "digit_char c =
     (let n = (of_char c :: nat) in (48 \<le> n \<and> n \<le> 57) \<or> n = 178 \<or> n = 179 \<or> n = 185)"

definition isdigit :: "string \<Rightarrow> bool" where
  \<comment> \<open>\<^verbatim>\<open>s.isdigit()\<close>: at least one character, and all of them digits\<close>
  "isdigit s = (s \<noteq> [] \<and> list_all digit_char s)"

definition digit_value :: "char \<Rightarrow> nat" where
  "digit_value c = of_char c - 48"

fun int_body :: "bool \<Rightarrow> string \<Rightarrow> nat list option" where
  \<comment> \<open>the digits of an integer literal after its sign: decimal digits, with single
      underscores allowed between two digits; \<open>prev\<close> says that the previous character
      was a digit\<close>
  "int_body prev [] = (if prev then Some [] else None)"
| "int_body prev (c # cs) =
     (if decimal_char c then map_option ((#) (digit_value c)) (int_body True cs)
      else if c = CHR ''_'' \<and> prev then int_body False cs
      else None)"

definition dec :: "nat list \<Rightarrow> int" where
  "dec ds = int (foldl (\<lambda>a d. 10 * a + d) 0 ds)"

definition int_max_str_digits :: nat where
  \<comment> \<open>CPython 3.11 and later refuse to convert more digits than this (the default of
      \<^verbatim>\<open>sys.int_max_str_digits\<close>); earlier versions have no limit. Every statement below
      about a successful conversion is about tokens within the limit, so it holds for
      both.\<close>
  "int_max_str_digits = 4300"

definition py_int :: "string \<Rightarrow> int option" where
  \<comment> \<open>\<^verbatim>\<open>int(s)\<close>; \<open>None\<close> is ValueError\<close>
  "py_int s =
     (let t = strip s;
          neg = (t \<noteq> [] \<and> hd t = CHR ''-'');
          body = (if t \<noteq> [] \<and> (hd t = CHR ''-'' \<or> hd t = CHR ''+'') then tl t else t)
      in case int_body False body of
           None \<Rightarrow> None
         | Some ds \<Rightarrow>
             if int_max_str_digits < length ds then None
             else Some (if neg then - dec ds else dec ds))"

definition decimal_token :: "string \<Rightarrow> bool" where
  \<comment> \<open>a token made of the digits \<^verbatim>\<open>0\<close> to \<^verbatim>\<open>9\<close> only\<close>
  "decimal_token t = (t \<noteq> [] \<and> list_all decimal_char t)"

definition decimal_value :: "string \<Rightarrow> int" where
  "decimal_value t = dec (map digit_value t)"

section \<open>The two loaders\<close>

text \<open>
  The file system is a map from paths to what is there. A path that is mapped to nothing
  names no file, and \<^verbatim>\<open>open\<close> raises FileNotFoundError on it. A path can be mapped to a
  readable file with its text; to an entry that exists but on which \<^verbatim>\<open>open\<close> raises
  OSError (a directory, a file without read permission); or to the exception that
  \<^verbatim>\<open>open\<close> raises on a path that cannot be resolved at all, for which
  \<^verbatim>\<open>os.path.exists\<close> is false as well (NotADirectoryError below a regular file,
  ValueError for a path with a NUL character, OSError for an over-long name).
\<close>

type_synonym path = string

datatype py_exception = FileNotFoundError | NotADirectoryError | OSError | ValueError

datatype fs_entry = File string | Unreadable | Unresolvable py_exception

type_synonym filesystem = "path \<rightharpoonup> fs_entry"

definition path_exists :: "filesystem \<Rightarrow> path \<Rightarrow> bool" where
  \<comment> \<open>\<^verbatim>\<open>os.path.exists\<close>\<close>
  "path_exists fs filepath =
     (case fs filepath of
        None \<Rightarrow> False
      | Some (Unresolvable e) \<Rightarrow> False
      | Some entry \<Rightarrow> True)"

definition read_chain_lengths_con :: "filesystem \<Rightarrow> path \<Rightarrow> py_exception + int list" where
  \<comment> \<open>\<^verbatim>\<open>read_chain_lengths\<close> of comparison\_MWD\_con.py: nothing is caught, so the exception
      of \<^verbatim>\<open>open\<close> and the ValueError of the first token that \<^verbatim>\<open>int\<close> refuses leave the
      function. \<open>Inr xs\<close> is the return of \<^verbatim>\<open>np.array(xs)\<close>.\<close>
  "read_chain_lengths_con fs filepath =
     (case fs filepath of
        None \<Rightarrow> Inl FileNotFoundError
      | Some (Unresolvable e) \<Rightarrow> Inl e
      | Some Unreadable \<Rightarrow> Inl OSError
      | Some (File content) \<Rightarrow>
          (let data = split content
           in case those (map py_int data) of
                None \<Rightarrow> Inl ValueError
              | Some lengths \<Rightarrow> Inr lengths))"

datatype message = File_not_found | No_numeric_data | Error_converting | Unexpected_error

definition read_chain_lengths_con_50 ::
  "filesystem \<Rightarrow> path \<Rightarrow> message option \<times> int list option" where
  \<comment> \<open>\<^verbatim>\<open>read_chain_lengths\<close> of comparison\_MWD\_con\_50.py: the pair of the line it prints
      (if any) and the value it returns, \<open>None\<close> for Python's \<^verbatim>\<open>None\<close> and \<open>Some xs\<close> for
      \<^verbatim>\<open>np.array(xs)\<close>, the array that numpy builds from the list \<open>xs\<close> (\<open>np_array\<close> below
      gives its element type and its values)\<close>
  "read_chain_lengths_con_50 fs filepath =
     (if \<not> path_exists fs filepath then (Some File_not_found, None)
      else
        case fs filepath of
          Some (File content) \<Rightarrow>
            (let data = split content
             in case those (map py_int (filter (\<lambda>tok. isdigit (strip tok)) data)) of
                  None \<Rightarrow> (Some Error_converting, None)
                | Some lengths \<Rightarrow>
                    if lengths = [] then (Some No_numeric_data, Some [])
                    else (None, Some lengths))
        | entry \<Rightarrow> (Some Unexpected_error, None))"

definition same_result :: "py_exception + int list \<Rightarrow> message option \<times> int list option \<Rightarrow> bool" where
  \<comment> \<open>the two loaders agree: both fail (an exception on one side, \<^verbatim>\<open>None\<close> on the other),
      or both return the same sequence\<close>
  "same_result r r50 = (case r of Inl e \<Rightarrow> snd r50 = None | Inr xs \<Rightarrow> snd r50 = Some xs)"

section \<open>Arrays and arithmetic of numpy\<close>

text \<open>
  \<^verbatim>\<open>np.array\<close> of a list of Python integers that all fit in 64 bits is an array of
  \<^verbatim>\<open>int64\<close>. An array is modelled as the list of its values; where numpy computes in
  \<^verbatim>\<open>int64\<close> (\<^verbatim>\<open>np.sum\<close> of an integer array, \<^verbatim>\<open>lengths**2\<close>) the two's-complement
  wrap-around is written out. A list with a value outside \<^verbatim>\<open>int64\<close> gets another
  element type from numpy and is outside the model; every statement below that depends
  on the arithmetic bounds the values. Values of type \<^verbatim>\<open>float64\<close> are read as the real
  numbers they approximate: rounding is outside the model, and a division that numpy
  answers with \<^verbatim>\<open>inf\<close> or \<^verbatim>\<open>nan\<close> is a result of its own.
\<close>

definition int64 :: "int \<Rightarrow> int" where
  "int64 x = (x + 2 ^ 63) mod 2 ^ 64 - 2 ^ 63"

definition np_sum :: "int list \<Rightarrow> int" where
  \<comment> \<open>\<^verbatim>\<open>np.sum\<close> of an \<^verbatim>\<open>int64\<close> array: the accumulator is \<^verbatim>\<open>int64\<close>, and wrapping
      once at the end gives the value that wrapping after every addition gives\<close>
  "np_sum a = int64 (sum_list a)"

definition np_mean :: "int list \<Rightarrow> real" where
  \<comment> \<open>\<^verbatim>\<open>np.mean\<close> of an integer array accumulates in \<^verbatim>\<open>float64\<close>\<close>
  "np_mean a = real_of_int (sum_list a) / real (length a)"

text \<open>
  Where a claim depends on the rounding of \<^verbatim>\<open>float64\<close>, it is written out: every
  operation of IEEE 754 binary64 returns the exact result rounded to the nearest number
  with 53 significant bits, ties to the even one. All values met here are in the normal
  range, far from overflow and underflow.
\<close>

definition round_half_even :: "real \<Rightarrow> int" where
  "round_half_even y =
     (let f = \<lfloor>y\<rfloor>; r = y - of_int f
      in if r < 1 / 2 then f else if 1 / 2 < r then f + 1 else if even f then f else f + 1)"

definition rnd64 :: "real \<Rightarrow> real" where
  \<comment> \<open>round to nearest, ties to even, with 53 significant bits\<close>
  "rnd64 x =
     (if x = 0 then 0
      else
        let q = 2 powr (of_int \<lfloor>log 2 \<bar>x\<bar>\<rfloor> - 52)
        in sgn x * q * of_int (round_half_even (\<bar>x\<bar> / q)))"

definition to_float64 :: "int \<Rightarrow> real" where
  \<comment> \<open>the conversion of an integer to \<^verbatim>\<open>float64\<close>\<close>
  "to_float64 x = rnd64 (real_of_int x)"

datatype ndarray = Int64 "int list" | UInt64 "int list" | Float64 "real list" | Object "int list"

definition np_array :: "int list \<Rightarrow> ndarray" where
  \<comment> \<open>\<^verbatim>\<open>np.array\<close> of a list of Python integers: each value is \<^verbatim>\<open>int64\<close> if it fits,
      else \<^verbatim>\<open>uint64\<close> if it fits, else a Python object, and the array has the common
      type, which is \<^verbatim>\<open>float64\<close> for \<^verbatim>\<open>int64\<close> with \<^verbatim>\<open>uint64\<close>; the empty list gives an
      empty \<^verbatim>\<open>float64\<close> array\<close>
  "np_array xs =
     (if xs = [] then Float64 []
      else if list_all (\<lambda>x. - (2 ^ 63) \<le> x \<and> x < 2 ^ 63) xs then Int64 xs
      else if list_all (\<lambda>x. 2 ^ 63 \<le> x \<and> x < 2 ^ 64) xs then UInt64 xs
      else if list_all (\<lambda>x. - (2 ^ 63) \<le> x \<and> x < 2 ^ 64) xs then Float64 (map to_float64 xs)
      else Object xs)"

definition returned_array :: "message option \<times> int list option \<Rightarrow> ndarray option" where
  \<comment> \<open>the array that the loader of comparison\_MWD\_con\_50.py returns, if it returns one\<close>
  "returned_array r = map_option np_array (snd r)"

definition linspace :: "real \<Rightarrow> real \<Rightarrow> nat \<Rightarrow> real list" where
  "linspace start stop num =
     map (\<lambda>i. start + real i * ((stop - start) / real (num - 1))) [0..<num]"

fun trapz :: "real list \<Rightarrow> real list \<Rightarrow> real" where
  "trapz (y0 # y1 # ys) (x0 # x1 # xs) =
     (x1 - x0) * (y0 + y1) / 2 + trapz (y1 # ys) (x1 # xs)"
| "trapz ys xs = 0"

definition diff :: "real list \<Rightarrow> real list" where
  \<comment> \<open>\<^verbatim>\<open>np.diff\<close>\<close>
  "diff e = map2 (\<lambda>hi lo. hi - lo) (tl e) (butlast e)"

definition ge_mask :: "int list \<Rightarrow> int \<Rightarrow> bool list" where
  \<comment> \<open>\<^verbatim>\<open>a >= b\<close>, element by element\<close>
  "ge_mask a b = map (\<lambda>x. b \<le> x) a"

definition bool_index :: "'a list \<Rightarrow> bool list \<Rightarrow> 'a list" where
  \<comment> \<open>\<^verbatim>\<open>a[mask]\<close>: the elements of \<open>a\<close> at which the mask is true, in order\<close>
  "bool_index a msk = map fst (filter snd (zip a msk))"

definition histogram_range :: "int list \<Rightarrow> real \<times> real" where
  \<comment> \<open>the outer edges \<^verbatim>\<open>np.histogram\<close> chooses when no range is given\<close>
  "histogram_range a =
     (let first_edge = (if a = [] then 0 else real_of_int (Min (set a)));
          last_edge = (if a = [] then 1 else real_of_int (Max (set a)))
      in if first_edge = last_edge then (first_edge - 1 / 2, last_edge + 1 / 2)
         else (first_edge, last_edge))"

definition bin_index :: "real \<Rightarrow> real \<Rightarrow> nat \<Rightarrow> int \<Rightarrow> nat" where
  \<comment> \<open>the bin of a value between the outer edges: bins are closed on the left and open
      on the right, but for the last one, which is closed on both sides\<close>
  "bin_index first_edge last_edge bins x =
     min (bins - 1)
       (nat \<lfloor>(real_of_int x - first_edge) / (last_edge - first_edge) * real bins\<rfloor>)"

definition np_histogram :: "int list \<Rightarrow> nat \<Rightarrow> nat list \<times> real list" where
  \<comment> \<open>\<^verbatim>\<open>np.histogram(a, bins=bins)\<close> for a positive number of bins: the counts and the
      \<open>bins + 1\<close> edges\<close>
  "np_histogram a bins =
     (let (first_edge, last_edge) = histogram_range a
      in (map (\<lambda>i. length (filter (\<lambda>x. bin_index first_edge last_edge bins x = i) a)) [0..<bins],
          linspace first_edge last_edge (bins + 1)))"

section \<open>comparison\_MWD\_con\_50.py\<close>

record moments =
  Mn :: real
  Mw :: real
  PDI :: real

datatype failure = Failed_to_read | Empty_file | No_valid_chains | Sum_is_zero | KDE_error

definition compute_moments :: "int list \<Rightarrow> failure + moments" where
  \<comment> \<open>lines 63 to 70 of \<^verbatim>\<open>process_and_get_mwd_data\<close>: only the squares are widened to
      \<^verbatim>\<open>float64\<close>, the sum of the lengths stays \<^verbatim>\<open>int64\<close>\<close>
  "compute_moments filtered_chain_lengths =
     (let sum_lengths = np_sum filtered_chain_lengths
      in if sum_lengths = 0 then Inl Sum_is_zero
         else
           let mn = np_mean filtered_chain_lengths;
               mw = sum_list (map (\<lambda>x. (real_of_int x)\<^sup>2) filtered_chain_lengths)
                      / real_of_int sum_lengths
           in Inr \<lparr>Mn = mn, Mw = mw, PDI = mw / mn\<rparr>)"

definition x_grid :: "int list \<Rightarrow> real \<Rightarrow> real list" where
  \<comment> \<open>lines 83 to 85\<close>
  "x_grid filtered_chain_lengths mn =
     (let min_val = max 0 (real_of_int (Min (set filtered_chain_lengths)) - 1 / 10 * mn);
          max_val = real_of_int (Max (set filtered_chain_lengths)) + 1 / 10 * mn
      in linspace min_val max_val 500)"

definition w_unnormalized :: "(real \<Rightarrow> real) \<Rightarrow> real list \<Rightarrow> real list" where
  \<comment> \<open>lines 86 and 92\<close>
  "w_unnormalized kde x_vals = map (\<lambda>x. max x (1 / 10 ^ 9) * kde x) x_vals"

definition norm_factor :: "(real \<Rightarrow> real) \<Rightarrow> real list \<Rightarrow> real" where
  \<comment> \<open>line 95\<close>
  "norm_factor kde x_vals = trapz (w_unnormalized kde x_vals) x_vals"

text \<open>
  \<^verbatim>\<open>gaussian_kde\<close> belongs to scipy, not to this repository: it is a parameter of the
  model, a function from the sample to the estimated density, or \<open>None\<close> where scipy
  raises (a sample without spread). Nothing below depends on which density it returns.
\<close>

definition weight_fraction_density ::
  "(int list \<Rightarrow> (real \<Rightarrow> real) option) \<Rightarrow> int list \<Rightarrow> real
     \<Rightarrow> (real list \<times> real list \<times> bool) option" where
  \<comment> \<open>lines 80 to 107: the grid, the normalized weight density and whether the warning
      of line 99 was printed; \<open>None\<close> is the \<^verbatim>\<open>except\<close> branch\<close>
  "weight_fraction_density gaussian_kde filtered_chain_lengths mn =
     (case gaussian_kde filtered_chain_lengths of
        None \<Rightarrow> None
      | Some kde \<Rightarrow>
          if filtered_chain_lengths = [] then None
          else
            let x_vals = x_grid filtered_chain_lengths mn;
                w = w_unnormalized kde x_vals
            in if norm_factor kde x_vals \<le> 1 / 10 ^ 9
               then Some (x_vals, map (\<lambda>_. 0) w, True)
               else Some (x_vals, map (\<lambda>v. v / norm_factor kde x_vals) w, False))"

record mwd_data =
  x_vals :: "real list"
  y_vals :: "real list"
  raw_data :: "int list"
  stats :: moments
  removed_chains :: nat
  normalization_warning :: bool

definition process_and_get_mwd_data ::
  "(int list \<Rightarrow> (real \<Rightarrow> real) option) \<Rightarrow> filesystem \<Rightarrow> path \<Rightarrow> failure + mwd_data" where
  \<comment> \<open>\<open>Inl\<close> is a return of \<^verbatim>\<open>None\<close>, with the branch that took it. The label of the
      plot is left out; \<open>removed_chains\<close> and \<open>normalization_warning\<close> are what the function
      prints.\<close>
  "process_and_get_mwd_data gaussian_kde fs filepath =
     (case snd (read_chain_lengths_con_50 fs filepath) of
        None \<Rightarrow> Inl Failed_to_read
      | Some chain_lengths \<Rightarrow>
          if length chain_lengths = 0 then Inl Empty_file
          else
            let total_chains = length chain_lengths;
                filtered_chain_lengths = bool_index chain_lengths (ge_mask chain_lengths 3);
                removed = total_chains - length filtered_chain_lengths
            in if length filtered_chain_lengths = 0 then Inl No_valid_chains
               else
                 (case compute_moments filtered_chain_lengths of
                    Inl e \<Rightarrow> Inl e
                  | Inr st \<Rightarrow>
                      (case weight_fraction_density gaussian_kde filtered_chain_lengths (Mn st) of
                         None \<Rightarrow> Inl KDE_error
                       | Some (xs, ys, warned) \<Rightarrow>
                           Inr \<lparr>x_vals = xs, y_vals = ys, raw_data = filtered_chain_lengths,
                                stats = st, removed_chains = removed,
                                normalization_warning = warned\<rparr>)))"

record histogram =
  bin_edges :: "real list"
  weight_fraction :: "real list"
  bin_centers :: "real list"
  total_weight_warning :: bool

definition weight_counts :: "int list \<Rightarrow> nat \<Rightarrow> real list" where
  \<comment> \<open>lines 135 to 141\<close>
  "weight_counts data bins =
     (let (counts, edges) = np_histogram data bins;
          centers = map2 (\<lambda>hi lo. 1 / 2 * (hi + lo)) (tl edges) (butlast edges)
      in map2 (\<lambda>c m. real c * m) counts centers)"

definition total_weight :: "int list \<Rightarrow> nat \<Rightarrow> real" where
  \<comment> \<open>line 144\<close>
  "total_weight data bins = sum_list (weight_counts data bins)"

definition calculate_weight_fraction_histogram :: "int list \<Rightarrow> nat \<Rightarrow> histogram option" where
  \<comment> \<open>\<open>None\<close> is the ValueError of \<^verbatim>\<open>np.histogram\<close> for \<open>bins = 0\<close>;
      \<open>total_weight_warning\<close> is the warning of line 147\<close>
  "calculate_weight_fraction_histogram data bins =
     (if bins = 0 then None
      else
        let (counts, edges) = np_histogram data bins;
            centers = map2 (\<lambda>hi lo. 1 / 2 * (hi + lo)) (tl edges) (butlast edges)
        in if total_weight data bins \<le> 0
           then Some \<lparr>bin_edges = edges, weight_fraction = map (\<lambda>_. 0) counts,
                      bin_centers = centers, total_weight_warning = True\<rparr>
           else
             let bin_widths = diff edges
             in Some \<lparr>bin_edges = edges,
                      weight_fraction =
                        map2 (\<lambda>wc w. wc / (total_weight data bins * w))
                          (weight_counts data bins) bin_widths,
                      bin_centers = centers, total_weight_warning = False\<rparr>)"

definition area :: "histogram \<Rightarrow> real" where
  \<comment> \<open>the discretized integral of a histogram: the sum of value times bin width\<close>
  "area h = sum_list (map2 (\<lambda>v w. v * w) (weight_fraction h) (diff (bin_edges h)))"

section \<open>comparison\_MWD\_con.py\<close>

definition con_moments :: "int list \<Rightarrow> moments option" where
  \<comment> \<open>lines 58 to 60, run on a non-empty array: the squares and their sum are
      \<^verbatim>\<open>int64\<close>. \<open>None\<close> stands for a division by zero, which numpy answers with
      \<^verbatim>\<open>inf\<close> or \<^verbatim>\<open>nan\<close>.\<close>
  "con_moments lengths =
     (let mn = np_mean lengths;
          sum_sq = np_sum (map (\<lambda>x. int64 (x * x)) lengths);
          sum_lengths = np_sum lengths
      in if sum_lengths = 0 \<or> mn = 0 then None
         else
           let mw = real_of_int sum_sq / real_of_int sum_lengths
           in Some \<lparr>Mn = mn, Mw = mw, PDI = mw / mn\<rparr>)"

definition con_density ::
  "(int list \<Rightarrow> int list \<Rightarrow> (real \<Rightarrow> real) option) \<Rightarrow> int list
     \<Rightarrow> (real list \<times> real list) option" where
  \<comment> \<open>lines 62 to 65: the weighted estimate is divided by its trapezoidal integral
      without a guard. \<open>None\<close> stands for an exception of scipy, or for a division by
      zero.\<close>
  "con_density gaussian_kde lengths =
     (case gaussian_kde lengths lengths of
        None \<Rightarrow> None
      | Some kde \<Rightarrow>
          if lengths = [] then None
          else
            let x = linspace (real_of_int (Min (set lengths))) (real_of_int (Max (set lengths))) 500;
                y = map kde x
            in if trapz y x = 0 then None
               else Some (x, map (\<lambda>v. v / trapz y x) y))"

section \<open>The moments with the rounding of float64\<close>

text \<open>
  The order and the equality of the computed Mn, Mw and PDI depend on the rounding, so
  lines 63 to 70 of comparison\_MWD\_con\_50.py and lines 58 to 60 of
  comparison\_MWD\_con.py are written out a second time with it. numpy adds the elements
  of a \<^verbatim>\<open>float64\<close> array in blocks and pairs, in an order that depends on the length of
  the array: a sum is any result of adding the elements two partial sums at a time,
  each addition rounded. The moments are therefore a relation between the array and a
  result.
\<close>

inductive add_reduce :: "real multiset \<Rightarrow> real \<Rightarrow> bool" where
  one: "add_reduce {#x#} x"
| add: "add_reduce A a \<Longrightarrow> add_reduce B b \<Longrightarrow> add_reduce (A + B) (rnd64 (a + b))"

definition compute_moments_float64 :: "int list \<Rightarrow> failure + moments \<Rightarrow> bool" where
  \<comment> \<open>lines 63 to 70: \<^verbatim>\<open>np.mean\<close> converts the lengths and adds them in \<^verbatim>\<open>float64\<close>, the
      squares are products in \<^verbatim>\<open>float64\<close>, the \<^verbatim>\<open>int64\<close> sum is converted for the
      division; the lengths are those kept by the filter of line 55, each at least 3, so
      that the mean is not zero\<close>
  "compute_moments_float64 filtered_chain_lengths result =
     (let sum_lengths = np_sum filtered_chain_lengths
      in if sum_lengths = 0 then result = Inl Sum_is_zero
         else
           \<exists>s q. add_reduce (mset (map to_float64 filtered_chain_lengths)) s
             \<and> add_reduce
                 (mset (map (\<lambda>x. rnd64 (to_float64 x * to_float64 x)) filtered_chain_lengths)) q
             \<and> result =
                 Inr (let mn = rnd64 (s / real (length filtered_chain_lengths));
                          mw = rnd64 (q / to_float64 sum_lengths)
                      in \<lparr>Mn = mn, Mw = mw, PDI = rnd64 (mw / mn)\<rparr>))"

definition con_moments_float64 :: "int list \<Rightarrow> moments option \<Rightarrow> bool" where
  \<comment> \<open>lines 58 to 60, run on a non-empty array: the two \<^verbatim>\<open>int64\<close> sums are converted
      for the division; \<open>None\<close> stands for a division by zero\<close>
  "con_moments_float64 lengths result =
     (\<exists>s. add_reduce (mset (map to_float64 lengths)) s
        \<and> (let mn = rnd64 (s / real (length lengths));
                sum_sq = np_sum (map (\<lambda>x. int64 (x * x)) lengths);
                sum_lengths = np_sum lengths
            in if sum_lengths = 0 \<or> mn = 0 then result = None
               else
                 let mw = rnd64 (to_float64 sum_sq / to_float64 sum_lengths)
                 in result = Some \<lparr>Mn = mn, Mw = mw, PDI = rnd64 (mw / mn)\<rparr>))"

text \<open>
  Where every sum of the two scripts is exact, the three numbers are the rounded
  quotients of the exact sums.
\<close>

definition rounded_moments :: "int list \<Rightarrow> moments" where
  "rounded_moments xs =
     (let mn = rnd64 (real_of_int (sum_list xs) / real (length xs));
          mw = rnd64 (real_of_int (sum_list (map (\<lambda>x. x\<^sup>2) xs)) / real_of_int (sum_list xs))
      in \<lparr>Mn = mn, Mw = mw, PDI = rnd64 (mw / mn)\<rparr>)"

section \<open>Properties of the rounding\<close>

lemma round_half_even_of_int: "round_half_even (of_int k) = k"
  by (simp add: round_half_even_def)

lemma round_half_even_bounds:
  "of_int (round_half_even y) \<le> y + 1 / 2" "y - 1 / 2 \<le> of_int (round_half_even y)"
  "\<lfloor>y\<rfloor> \<le> round_half_even y" "round_half_even y \<le> \<lfloor>y\<rfloor> + 1"
  unfolding round_half_even_def Let_def by (auto; linarith)+

lemma round_half_even_mono:
  assumes "y1 \<le> y2"
  shows "round_half_even y1 \<le> round_half_even y2"
proof (cases "\<lfloor>y1\<rfloor> = \<lfloor>y2\<rfloor>")
  case True
  with assms show ?thesis
    unfolding round_half_even_def Let_def by auto
next
  case False
  with assms have "\<lfloor>y1\<rfloor> < \<lfloor>y2\<rfloor>"
    using floor_mono [OF assms] by linarith
  then have "\<lfloor>y1\<rfloor> + 1 \<le> \<lfloor>y2\<rfloor>" by simp
  with round_half_even_bounds(4) [of y1] round_half_even_bounds(3) [of y2]
  show ?thesis by linarith
qed

lemma rnd64_pos:
  assumes "0 < x" "2 powr of_int e \<le> x" "x < 2 powr of_int (e + 1)"
  shows "rnd64 x = 2 powr (of_int e - 52) * of_int (round_half_even (x / 2 powr (of_int e - 52)))"
proof -
  have "\<lfloor>log 2 x\<rfloor> = e"
    using assms by (simp add: floor_log_eq_powr_iff)
  with assms(1) show ?thesis
    by (simp add: rnd64_def Let_def)
qed

lemma scaled_range:
  fixes x :: real
  assumes "2 powr of_int e \<le> x" "x < 2 powr of_int (e + 1)"
  shows "2 ^ 52 \<le> x / 2 powr (of_int e - 52)" "x / 2 powr (of_int e - 52) < 2 ^ 53"
proof -
  have q: "(2::real) powr (of_int e - 52) = 2 powr of_int e / 2 ^ 52"
    by (simp add: powr_diff)
  have p: "(0::real) < 2 powr of_int e" by simp
  have "(2::real) powr of_int (e + 1) = 2 * 2 powr of_int e"
    by (simp add: powr_add)
  with assms(2) have u: "x < 2 * 2 powr of_int e" by simp
  from assms(1) p show "2 ^ 52 \<le> x / 2 powr (of_int e - 52)"
    unfolding q by (simp add: field_simps)
  from u p show "x / 2 powr (of_int e - 52) < 2 ^ 53"
    unfolding q by (simp add: field_simps)
qed

lemma rnd64_binade:
  assumes "0 < x" "2 powr of_int e \<le> x" "x < 2 powr of_int (e + 1)"
  shows "2 powr of_int e \<le> rnd64 x" "rnd64 x \<le> 2 powr of_int (e + 1)"
proof -
  let ?q = "2 powr (of_int e - 52) :: real"
  have q: "?q = 2 powr of_int e / 2 ^ 52"
    by (simp add: powr_diff)
  have q1: "2 powr of_int (e + 1) = ?q * 2 ^ 53"
    unfolding q by (simp add: powr_add)
  have q0: "2 powr of_int e = ?q * 2 ^ 52"
    unfolding q by simp
  have qpos: "0 < ?q" by simp
  note s = scaled_range [OF assms(2,3)]
  have "round_half_even (of_int (2 ^ 52)) \<le> round_half_even (x / ?q)"
    by (rule round_half_even_mono) (use s(1) in simp)
  then have lo: "2 ^ 52 \<le> round_half_even (x / ?q)"
    by (simp only: round_half_even_of_int)
  have "round_half_even (x / ?q) \<le> round_half_even (of_int (2 ^ 53))"
    by (rule round_half_even_mono) (use s(2) in simp)
  then have hi: "round_half_even (x / ?q) \<le> 2 ^ 53"
    by (simp only: round_half_even_of_int)
  from lo have "(2 ^ 52 :: real) \<le> of_int (round_half_even (x / ?q))"
    by (metis of_int_le_iff of_int_numeral of_int_power)
  with qpos have "?q * 2 ^ 52 \<le> ?q * of_int (round_half_even (x / ?q))"
    by (intro mult_left_mono) simp_all
  then show "2 powr of_int e \<le> rnd64 x"
    unfolding rnd64_pos [OF assms] q0 .
  from hi have "of_int (round_half_even (x / ?q)) \<le> (2 ^ 53 :: real)"
    by (metis of_int_le_iff of_int_numeral of_int_power)
  with qpos have "?q * of_int (round_half_even (x / ?q)) \<le> ?q * 2 ^ 53"
    by (intro mult_left_mono) simp_all
  then show "rnd64 x \<le> 2 powr of_int (e + 1)"
    unfolding rnd64_pos [OF assms] q1 .
qed

lemma binade_exists:
  assumes "0 < x"
  shows "2 powr of_int \<lfloor>log 2 x\<rfloor> \<le> x" "x < 2 powr of_int (\<lfloor>log 2 x\<rfloor> + 1)"
  using assms floor_log_eq_powr_iff [of x 2 "\<lfloor>log 2 x\<rfloor>"] by simp_all

lemma rnd64_mono:
  assumes "0 < x" "x \<le> y"
  shows "rnd64 x \<le> rnd64 y"
proof -
  from assms have y: "0 < y" by simp
  let ?ex = "\<lfloor>log 2 x\<rfloor>" and ?ey = "\<lfloor>log 2 y\<rfloor>"
  have le: "?ex \<le> ?ey"
    using assms y by (intro floor_mono) simp
  note bx = binade_exists [OF assms(1)] and by' = binade_exists [OF y]
  show ?thesis
  proof (cases "?ex = ?ey")
    case True
    let ?q = "2 powr (of_int ?ex - 52) :: real"
    have qpos: "0 < ?q" by simp
    from assms(2) qpos have "x / ?q \<le> y / ?q" by (simp add: divide_right_mono)
    then have "round_half_even (x / ?q) \<le> round_half_even (y / ?q)"
      by (rule round_half_even_mono)
    then have "?q * of_int (round_half_even (x / ?q)) \<le> ?q * of_int (round_half_even (y / ?q))"
      using qpos by (intro mult_left_mono) simp_all
    then show ?thesis
      using rnd64_pos [OF assms(1) bx] rnd64_pos [OF y by'] True by simp
  next
    case False
    with le have "?ex + 1 \<le> ?ey" by simp
    then have "(2::real) powr of_int (?ex + 1) \<le> 2 powr of_int ?ey"
      by (intro powr_mono) simp_all
    with rnd64_binade(2) [OF assms(1) bx] rnd64_binade(1) [OF y by']
    show ?thesis by linarith
  qed
qed

lemma rnd64_of_nat:
  assumes "n \<le> 2 ^ 53"
  shows "rnd64 (real n) = real n"
proof (cases "n = 0")
  case True
  then show ?thesis by (simp add: rnd64_def)
next
  case False
  then have pos: "0 < real n" by simp
  let ?e = "\<lfloor>log 2 (real n)\<rfloor>"
  note b = binade_exists [OF pos]
  have "real n < 2 powr 54"
    using assms by (simp add: order_le_less_trans [of _ "2 ^ 53"] flip: of_nat_le_iff)
  then have "2 powr of_int ?e < (2::real) powr 54"
    using b(1) by linarith
  then have "of_int ?e < (54::real)"
    by (rule powr_less_cancel) simp
  then have e53: "?e \<le> 53" by linarith
  show ?thesis
  proof (cases "?e \<le> 52")
    case True
    define k where "k = nat (52 - ?e)"
    have "real_of_int ?e - 52 = - real k"
      using True by (simp add: k_def)
    then have q: "2 powr (of_int ?e - 52) = 1 / (2::real) ^ k"
      by (simp only: powr_minus powr_realpow zero_less_numeral inverse_eq_divide)
    have "real n / (1 / 2 ^ k) = of_int (int (n * 2 ^ k))" by simp
    then have "round_half_even (real n / (1 / 2 ^ k)) = int (n * 2 ^ k)"
      by (simp only: round_half_even_of_int)
    then show ?thesis
      unfolding rnd64_pos [OF pos b] q by simp
  next
    case False
    with e53 have e: "?e = 53" by linarith
    with b(1) have "(2::real) ^ 53 \<le> real n" by simp
    moreover from assms have "real n \<le> 2 ^ 53"
      by (metis of_nat_le_iff of_nat_numeral of_nat_power)
    ultimately have n: "real n = 2 ^ 53" by simp
    have "real n / 2 = of_int (2 ^ 52)" unfolding n by simp
    then have "round_half_even (real n / 2) = 2 ^ 52"
      by (simp only: round_half_even_of_int)
    then show ?thesis
      using rnd64_pos [OF pos b] e n by simp
  qed
qed

lemma round_half_even_eq:
  assumes "real_of_int k - 1 / 2 < y" "y < real_of_int k + 1 / 2"
  shows "round_half_even y = k"
proof -
  from round_half_even_bounds(1) [of y] assms(2)
  have "real_of_int (round_half_even y) < real_of_int (k + 1)" by simp
  then have "round_half_even y < k + 1" by (simp only: of_int_less_iff)
  moreover from round_half_even_bounds(2) [of y] assms(1)
  have "real_of_int (k - 1) < real_of_int (round_half_even y)" by simp
  then have "k - 1 < round_half_even y" by (simp only: of_int_less_iff)
  ultimately show ?thesis by simp
qed

lemma round_half_even_tie:
  assumes "y = real_of_int k + 1 / 2" "even k"
  shows "round_half_even y = k"
proof -
  have "\<lfloor>y\<rfloor> = k" unfolding assms(1) by linarith
  with assms show ?thesis
    by (simp add: round_half_even_def)
qed

lemma rnd64_up:
  assumes "2 ^ (52 + j) \<le> x" "x < 2 ^ (53 + j)" "round_half_even (x / 2 ^ j) = k"
  shows "rnd64 x = 2 ^ j * real_of_int k"
proof -
  have pos: "0 < x" using assms(1) by (rule less_le_trans [rotated]) simp
  have e: "(2::real) powr of_int (int (52 + j)) = 2 ^ (52 + j)"
      "(2::real) powr of_int (int (52 + j) + 1) = 2 ^ (53 + j)"
    using powr_realpow [of "2::real" "52 + j"] powr_realpow [of "2::real" "53 + j"]
    by (simp_all add: add.commute)
  have q: "(2::real) powr (of_int (int (52 + j)) - 52) = 2 ^ j"
    using powr_realpow [of "2::real" j] by simp
  show ?thesis
    using rnd64_pos [of x "int (52 + j)"] pos assms unfolding e q by simp
qed

lemma rnd64_down:
  assumes "2 ^ 52 \<le> x * 2 ^ j" "x * 2 ^ j < 2 ^ 53" "round_half_even (x * 2 ^ j) = k"
  shows "rnd64 x = real_of_int k / 2 ^ j"
proof -
  have "0 < x * 2 ^ j" using assms(1) by (rule less_le_trans [rotated]) simp
  then have pos: "0 < x" by (simp add: zero_less_mult_iff)
  have p: "(2::real) powr (- real j) = 1 / 2 ^ j"
    by (simp only: powr_minus powr_realpow zero_less_numeral inverse_eq_divide)
  have pj: "(2::real) powr real j = 2 ^ j"
    by (simp add: powr_realpow)
  have e0: "(2::real) powr of_int (52 - int j) = 2 ^ 52 / 2 ^ j"
    using pj by (simp add: powr_diff)
  have e1: "(2::real) powr of_int (52 - int j + 1) = 2 ^ 53 / 2 ^ j"
    using pj powr_diff [of "2::real" 53 "real j"] by (simp add: algebra_simps)
  have q: "(2::real) powr (of_int (52 - int j) - 52) = 1 / 2 ^ j"
    using p by simp
  have "2 powr of_int (52 - int j) \<le> x" "x < 2 powr of_int (52 - int j + 1)"
    unfolding e0 e1 using assms(1,2) by (simp_all add: field_simps)
  from rnd64_pos [OF pos this] show ?thesis
    unfolding q using assms(3) by simp
qed

lemma rnd64_one: "rnd64 1 = 1"
  using rnd64_of_nat [of 1] by simp

lemma rnd64_of_int:
  assumes "0 \<le> k" "k \<le> 2 ^ 53"
  shows "rnd64 (real_of_int k) = real_of_int k"
proof -
  from assms(2) have "nat k \<le> 2 ^ 53"
    by (simp add: nat_le_iff)
  from rnd64_of_nat [OF this] assms(1) show ?thesis by simp
qed

lemma rnd64_2p63_plus_1: "rnd64 9223372036854775809 = 9223372036854775808"
proof -
  have "round_half_even (9223372036854775809 / 2 ^ 11) = 4503599627370496"
    by (rule round_half_even_eq) simp_all
  from rnd64_up [of 11 9223372036854775809, OF _ _ this] show ?thesis by simp
qed

lemma rnd64_square_134217727: "rnd64 18014398241046529 = 18014398241046528"
proof -
  have "round_half_even (18014398241046529 / 2 ^ 1) = 9007199120523264"
    by (rule round_half_even_tie) simp_all
  from rnd64_up [of 1 18014398241046529, OF _ _ this] show ?thesis by simp
qed

lemma rnd64_sum_squares_134217727: "rnd64 36028796482093056 = 36028796482093056"
proof -
  have "36028796482093056 / 2 ^ 2 = real_of_int 9007199120523264" by simp
  then have "round_half_even (36028796482093056 / 2 ^ 2) = 9007199120523264"
    by (simp only: round_half_even_of_int)
  from rnd64_up [of 2 36028796482093056, OF _ _ this] show ?thesis by simp
qed

lemma rnd64_Mw_134217727: "rnd64 (36028796482093056 / 268435454) = 9007199187632127 / 67108864"
proof -
  have "round_half_even (36028796482093056 / 268435454 * 2 ^ 26) = 9007199187632127"
    by (rule round_half_even_eq) simp_all
  from rnd64_down [of "36028796482093056 / 268435454" 26, OF _ _ this] show ?thesis by simp
qed

lemma rnd64_PDI_134217727: "rnd64 (9007199187632127 / 67108864 / 134217727) = 9007199254740991 / 9007199254740992"
proof -
  have "round_half_even (9007199187632127 / 67108864 / 134217727 * 2 ^ 53) = 9007199254740991"
    by (rule round_half_even_eq) simp_all
  from rnd64_down [of "9007199187632127 / 67108864 / 134217727" 53, OF _ _ this]
  show ?thesis by simp
qed

lemma rnd64_Mn_35791394: "rnd64 (107374183 / 3) = 4803839629372075 / 134217728"
proof -
  have "round_half_even (107374183 / 3 * 2 ^ 27) = 4803839629372075"
    by (rule round_half_even_eq) simp_all
  from rnd64_down [of "107374183 / 3" 27, OF _ _ this] show ?thesis by simp
qed

lemma rnd64_Mw_35791394: "rnd64 (3843071724972497 / 107374183) = 4803839629372075 / 134217728"
proof -
  have "round_half_even (3843071724972497 / 107374183 * 2 ^ 27) = 4803839629372075"
    by (rule round_half_even_eq) simp_all
  from rnd64_down [of "3843071724972497 / 107374183" 27, OF _ _ this] show ?thesis by simp
qed

section \<open>Properties of the loaders\<close>

lemma those_eq_Some: "those xs = Some ys \<longleftrightarrow> xs = map Some ys"
  by (induction xs arbitrary: ys) (auto split: option.splits)

lemma int_body_decimal:
  "list_all decimal_char t \<Longrightarrow> t \<noteq> [] \<or> prev \<Longrightarrow> int_body prev t = Some (map digit_value t)"
  by (induction t arbitrary: prev) auto

lemma decimal_not_space: "decimal_char c \<Longrightarrow> \<not> isspace c"
  by (auto simp: decimal_char_def isspace_def Let_def)

lemma strip_id:
  assumes "t \<noteq> []" "\<not> isspace (hd t)" "\<not> isspace (last t)"
  shows "strip t = t"
proof -
  have front: "dropWhile isspace t = t"
    using assms(2) by (simp add: dropWhile_eq_self_iff)
  have "hd (rev t) = last t"
    using assms(1) by (simp add: hd_rev)
  then have "dropWhile isspace (rev t) = rev t"
    using assms(3) by (simp add: dropWhile_eq_self_iff)
  with front show ?thesis
    by (simp add: strip_def)
qed

lemma strip_decimal: "list_all decimal_char t \<Longrightarrow> strip t = t"
proof (cases "t = []")
  case True
  then show ?thesis by (simp add: strip_def)
next
  case False
  assume "list_all decimal_char t"
  with False have "decimal_char (hd t)" "decimal_char (last t)"
    by (simp_all add: list_all_iff)
  with False show ?thesis
    by (simp add: strip_id decimal_not_space)
qed

lemma py_int_decimal:
  assumes "list_all decimal_char t" "t \<noteq> []" "length t \<le> int_max_str_digits"
  shows "py_int t = Some (dec (map digit_value t))"
proof -
  from assms have "decimal_char (hd t)" by (simp add: list_all_iff)
  then have "hd t \<noteq> CHR ''-''" "hd t \<noteq> CHR ''+''"
    by (auto simp: decimal_char_def)
  with assms show ?thesis
    by (simp add: py_int_def strip_decimal int_body_decimal)
qed

lemma dec_nonneg: "0 \<le> dec ds"
  by (simp add: dec_def)

lemma py_int_isdigit_nonneg:
  assumes "isdigit (strip t)" "py_int t = Some v"
  shows "0 \<le> v"
proof -
  from assms(1) have "strip t \<noteq> []" "digit_char (hd (strip t))"
    by (simp_all add: isdigit_def list_all_iff)
  then have "hd (strip t) \<noteq> CHR ''-''"
    by (auto simp: digit_char_def)
  with assms(2) show ?thesis
    by (auto simp: py_int_def Let_def dec_nonneg split: option.splits if_splits)
qed

lemma filter_list_all: "list_all P xs \<Longrightarrow> filter P xs = xs"
  by (induction xs) auto

lemma filter_none: "list_all (\<lambda>x. \<not> P x) xs \<Longrightarrow> filter P xs = []"
  by (induction xs) auto

lemma decimal_isdigit: "decimal_token t \<Longrightarrow> isdigit (strip t)"
  by (auto simp: decimal_token_def strip_decimal isdigit_def list_all_iff decimal_char_def digit_char_def Let_def)

lemma strip_Nil: "strip t \<noteq> [] \<Longrightarrow> t \<noteq> []"
  by (auto simp: strip_def)

lemma lenient_tokens:
  assumes "\<forall>t\<in>set ts. isdigit (strip t) \<longrightarrow> list_all decimal_char t \<and> length t \<le> int_max_str_digits"
  shows "those (map py_int (filter (\<lambda>t. isdigit (strip t)) ts))
           = Some (map decimal_value (filter decimal_token ts))"
  using assms
proof (induction ts)
  case Nil
  then show ?case by simp
next
  case (Cons t ts)
  then have IH: "those (map py_int (filter (\<lambda>t. isdigit (strip t)) ts))
           = Some (map decimal_value (filter decimal_token ts))"
    by simp
  show ?case
  proof (cases "isdigit (strip t)")
    case True
    with Cons.prems have d: "list_all decimal_char t" "length t \<le> int_max_str_digits"
      by simp_all
    from True have "t \<noteq> []"
      by (auto simp: isdigit_def dest: strip_Nil)
    with d have "py_int t = Some (decimal_value t)" "decimal_token t"
      by (simp_all add: py_int_decimal decimal_value_def decimal_token_def)
    with True IH show ?thesis by simp
  next
    case False
    then have "\<not> decimal_token t"
      using decimal_isdigit by blast
    with False IH show ?thesis by simp
  qed
qed

text \<open>
  Claim C6, as the code has it. The loader of comparison\_MWD\_con\_50.py drops every
  token that is not made of digit characters only. When each token it keeps is made of
  the digits 0 to 9 (within the conversion limit of the interpreter) and has a value
  below \<open>2 ^ 63\<close>, it does not fail and returns the \<^verbatim>\<open>int64\<close> array of the values of the
  kept tokens in the order of the file (the empty array when it keeps none); the file
  \<^verbatim>\<open>10 20 foo 30\<close> with a final newline gives 10, 20, 30.
\<close>

theorem read_chain_lengths_con_50_drops_other_tokens:
  "(fs filepath = Some (File content) \<and>
     (\<forall>t\<in>set (split content).
        isdigit (strip t)
        \<longrightarrow> list_all decimal_char t \<and> length t \<le> int_max_str_digits \<and> decimal_value t < 2 ^ 63)
    \<longrightarrow> snd (read_chain_lengths_con_50 fs filepath)
          = Some (map decimal_value (filter decimal_token (split content)))
        \<and> returned_array (read_chain_lengths_con_50 fs filepath)
          = Some (if filter decimal_token (split content) = [] then Float64 []
                  else Int64 (map decimal_value (filter decimal_token (split content)))))
   \<and> read_chain_lengths_con_50 (Map.empty(p \<mapsto> File ''10 20 foo 30\<newline>'')) p
         = (None, Some [10, 20, 30])
   \<and> returned_array (read_chain_lengths_con_50 (Map.empty(p \<mapsto> File ''10 20 foo 30\<newline>'')) p)
         = Some (Int64 [10, 20, 30])"
proof (intro conjI impI)
  assume a: "fs filepath = Some (File content) \<and>
     (\<forall>t\<in>set (split content).
        isdigit (strip t)
        \<longrightarrow> list_all decimal_char t \<and> length t \<le> int_max_str_digits \<and> decimal_value t < 2 ^ 63)"
  then have "those (map py_int (filter (\<lambda>t. isdigit (strip t)) (split content)))
           = Some (map decimal_value (filter decimal_token (split content)))"
    by (intro lenient_tokens) simp
  with a show r: "snd (read_chain_lengths_con_50 fs filepath)
          = Some (map decimal_value (filter decimal_token (split content)))"
    by (simp add: read_chain_lengths_con_50_def path_exists_def)
  have "list_all (\<lambda>x. - (2 ^ 63) \<le> x \<and> x < 2 ^ 63)
          (map decimal_value (filter decimal_token (split content)))"
    unfolding list_all_iff
  proof
    fix x
    assume "x \<in> set (map decimal_value (filter decimal_token (split content)))"
    then obtain t where t: "t \<in> set (split content)" "decimal_token t" "x = decimal_value t"
      by auto
    from t(2) have "isdigit (strip t)" by (rule decimal_isdigit)
    with a t(1) have "decimal_value t < 2 ^ 63" by blast
    moreover have "0 \<le> decimal_value t" by (simp add: decimal_value_def dec_nonneg)
    ultimately show "- (2 ^ 63) \<le> x \<and> x < 2 ^ 63" using t(3) by simp
  qed
  then show "returned_array (read_chain_lengths_con_50 fs filepath)
          = Some (if filter decimal_token (split content) = [] then Float64 []
                  else Int64 (map decimal_value (filter decimal_token (split content))))"
    by (simp add: returned_array_def r np_array_def)
next
  show "read_chain_lengths_con_50 (Map.empty(p \<mapsto> File ''10 20 foo 30\<newline>'')) p
         = (None, Some [10, 20, 30])"
    by (simp add: read_chain_lengths_con_50_def path_exists_def split_def isspace_def isdigit_def
        strip_def digit_char_def py_int_def decimal_char_def dec_def int_max_str_digits_def
        digit_value_def)
  then show "returned_array (read_chain_lengths_con_50 (Map.empty(p \<mapsto> File ''10 20 foo 30\<newline>'')) p)
         = Some (Int64 [10, 20, 30])"
    by (simp add: returned_array_def np_array_def)
qed

theorem read_chain_lengths_con_50_drops_other_tokens_witness:
  "split ''7 x1 42'' = [''7'', ''x1'', ''42''] \<and>
   snd (read_chain_lengths_con_50 (Map.empty(''f'' \<mapsto> File ''7 x1 42'')) ''f'') = Some [7, 42] \<and>
   returned_array (read_chain_lengths_con_50 (Map.empty(''f'' \<mapsto> File ''7 x1 42'')) ''f'')
     = Some (Int64 [7, 42])"
proof -
  have s: "split ''7 x1 42'' = [''7'', ''x1'', ''42'']"
    by (simp add: split_def isspace_def)
  have v: "decimal_value ''7'' = 7" "decimal_value ''42'' = 42"
    by (simp_all add: decimal_value_def dec_def digit_value_def)
  have "snd (read_chain_lengths_con_50 (Map.empty(''f'' \<mapsto> File ''7 x1 42'')) ''f'')
          = Some (map decimal_value (filter decimal_token (split ''7 x1 42'')))
        \<and> returned_array (read_chain_lengths_con_50 (Map.empty(''f'' \<mapsto> File ''7 x1 42'')) ''f'')
          = Some (if filter decimal_token (split ''7 x1 42'') = [] then Float64 []
                  else Int64 (map decimal_value (filter decimal_token (split ''7 x1 42''))))"
    using read_chain_lengths_con_50_drops_other_tokens
            [of "Map.empty(''f'' \<mapsto> File ''7 x1 42'')" "''f''" "''7 x1 42''"]
    by (simp add: s v isdigit_def strip_def isspace_def digit_char_def decimal_char_def
        int_max_str_digits_def)
  with s show ?thesis
    by (simp add: decimal_token_def v decimal_char_def)
qed

text \<open>
  Claim C6 as stated fails three times. The loader of comparison\_MWD\_con.py raises
  ValueError on the spec's own file. The loader of comparison\_MWD\_con\_50.py keeps a
  token made of the superscript two (a digit for \<^verbatim>\<open>isdigit\<close>, refused by \<^verbatim>\<open>int\<close>), so the
  conversion raises, the handler prints its line and the loader returns \<^verbatim>\<open>None\<close>. And
  on the tokens 9223372036854775809 and 5 numpy builds a \<^verbatim>\<open>float64\<close> array, in which the
  first value is 9223372036854775808.
\<close>

theorem loaders_fail_on_unparsable_token:
  "read_chain_lengths_con (Map.empty(''f'' \<mapsto> File ''10 20 foo 30\<newline>'')) ''f''
     = Inl ValueError
   \<and> py_int [CHR 0xB2] = None
   \<and> read_chain_lengths_con_50 (Map.empty(''f'' \<mapsto> File [CHR ''1'', CHR '' '', CHR 0xB2])) ''f''
     = (Some Error_converting, None)
   \<and> returned_array
        (read_chain_lengths_con_50 (Map.empty(''f'' \<mapsto> File ''9223372036854775809 5'')) ''f'')
     = Some (Float64 [9223372036854775808, 5])"
proof -
  have "read_chain_lengths_con_50 (Map.empty(''f'' \<mapsto> File ''9223372036854775809 5'')) ''f''
          = (None, Some [9223372036854775809, 5])"
    by (simp add: read_chain_lengths_con_50_def path_exists_def split_def isspace_def isdigit_def
        strip_def digit_char_def py_int_def decimal_char_def dec_def int_max_str_digits_def
        digit_value_def)
  moreover have "to_float64 5 = 5"
    using rnd64_of_nat [of 5] by (simp add: to_float64_def)
  ultimately have "returned_array
        (read_chain_lengths_con_50 (Map.empty(''f'' \<mapsto> File ''9223372036854775809 5'')) ''f'')
     = Some (Float64 [9223372036854775808, 5])"
    by (simp add: returned_array_def np_array_def to_float64_def rnd64_2p63_plus_1)
  then show ?thesis
    by (simp add: read_chain_lengths_con_def read_chain_lengths_con_50_def path_exists_def
        split_def isspace_def isdigit_def strip_def digit_char_def py_int_def decimal_char_def
        dec_def int_max_str_digits_def digit_value_def)
qed

text \<open>
  Claim C8, as the code has it: every element of an array returned by the loader of
  comparison\_MWD\_con\_50.py is at least 0.
\<close>

theorem read_chain_lengths_con_50_nonneg:
  "snd (read_chain_lengths_con_50 fs filepath) = Some lengths \<Longrightarrow> \<forall>x\<in>set lengths. 0 \<le> x"
proof
  fix x
  assume r: "snd (read_chain_lengths_con_50 fs filepath) = Some lengths" and x: "x \<in> set lengths"
  then obtain content where c: "fs filepath = Some (File content)"
    by (auto simp: read_chain_lengths_con_50_def path_exists_def split: option.splits fs_entry.splits)
  with r have "those (map py_int (filter (\<lambda>t. isdigit (strip t)) (split content))) = Some lengths"
    by (auto simp: read_chain_lengths_con_50_def path_exists_def split: option.splits if_splits)
  then have "map py_int (filter (\<lambda>t. isdigit (strip t)) (split content)) = map Some lengths"
    by (simp add: those_eq_Some)
  then have "Some x \<in> set (map py_int (filter (\<lambda>t. isdigit (strip t)) (split content)))"
    using x by simp
  then obtain t where "isdigit (strip t)" "py_int t = Some x"
    by auto
  then show "0 \<le> x"
    by (rule py_int_isdigit_nonneg)
qed

theorem read_chain_lengths_con_50_nonneg_witness:
  "snd (read_chain_lengths_con_50 (Map.empty(''f'' \<mapsto> File ''3 0 12'')) ''f'') = Some [3, 0, 12]
   \<and> list_all (\<lambda>x. 0 \<le> x) [3, 0, 12 :: int]"
proof -
  have r: "snd (read_chain_lengths_con_50 (Map.empty(''f'' \<mapsto> File ''3 0 12'')) ''f'')
             = Some [3, 0, 12]"
    by (simp add: read_chain_lengths_con_50_def path_exists_def split_def isspace_def isdigit_def strip_def
        digit_char_def py_int_def decimal_char_def dec_def int_max_str_digits_def digit_value_def)
  from read_chain_lengths_con_50_nonneg [OF r] have "list_all (\<lambda>x. 0 \<le> x) [3, 0, 12 :: int]"
    by (simp add: list_all_iff)
  with r show ?thesis by simp
qed

text \<open>
  Claim C8 as stated fails: the token \<^verbatim>\<open>0\<close> is loaded as the length 0 by both loaders,
  and the loader of comparison\_MWD\_con.py loads \<^verbatim>\<open>-5\<close> as well.
\<close>

theorem loaders_return_length_zero:
  "read_chain_lengths_con_50 (Map.empty(''f'' \<mapsto> File ''3 0 12'')) ''f'' = (None, Some [3, 0, 12])
   \<and> read_chain_lengths_con (Map.empty(''f'' \<mapsto> File ''3 0 12'')) ''f'' = Inr [3, 0, 12]
   \<and> read_chain_lengths_con (Map.empty(''f'' \<mapsto> File ''-5'')) ''f'' = Inr [- 5]"
  by (simp add: read_chain_lengths_con_def read_chain_lengths_con_50_def path_exists_def split_def isspace_def
      isdigit_def strip_def digit_char_def py_int_def decimal_char_def dec_def
      int_max_str_digits_def digit_value_def)

text \<open>
  Claim C9, as the code has it. On a path at which \<^verbatim>\<open>os.path.exists\<close> is false the loader
  of comparison\_MWD\_con\_50.py prints that the file was not found and returns \<^verbatim>\<open>None\<close>
  (the loader of comparison\_MWD\_con.py raises the exception of \<^verbatim>\<open>open\<close>); on an entry
  that cannot be opened it returns \<^verbatim>\<open>None\<close> too. On a readable file none of whose tokens
  is made of digit characters only, it prints that there is no numeric data and returns
  the empty array, which is neither \<^verbatim>\<open>None\<close> nor a non-empty sample.
\<close>

theorem read_chain_lengths_con_50_not_found_or_empty:
  "(\<not> path_exists fs filepath
      \<longrightarrow> read_chain_lengths_con_50 fs filepath = (Some File_not_found, None)
          \<and> isl (read_chain_lengths_con fs filepath))
   \<and> (fs filepath = Some Unreadable \<longrightarrow> snd (read_chain_lengths_con_50 fs filepath) = None)
   \<and> (fs filepath = Some (File content)
        \<and> list_all (\<lambda>t. \<not> isdigit (strip t)) (split content)
      \<longrightarrow> read_chain_lengths_con_50 fs filepath = (Some No_numeric_data, Some [])
          \<and> returned_array (read_chain_lengths_con_50 fs filepath) = Some (Float64 []))"
  by (auto simp: read_chain_lengths_con_50_def read_chain_lengths_con_def path_exists_def
      filter_none returned_array_def np_array_def split: option.splits fs_entry.splits)

theorem read_chain_lengths_con_50_not_found_or_empty_witness:
  "read_chain_lengths_con_50 Map.empty ''f'' = (Some File_not_found, None)
   \<and> isl (read_chain_lengths_con Map.empty ''f'')
   \<and> read_chain_lengths_con_50 (Map.empty(''f/x'' \<mapsto> Unresolvable NotADirectoryError)) ''f/x''
       = (Some File_not_found, None)
   \<and> isl (read_chain_lengths_con (Map.empty(''f/x'' \<mapsto> Unresolvable NotADirectoryError)) ''f/x'')
   \<and> snd (read_chain_lengths_con_50 (Map.empty(''f'' \<mapsto> Unreadable)) ''f'') = None
   \<and> split ''foo bar'' = [''foo'', ''bar'']
   \<and> read_chain_lengths_con_50 (Map.empty(''f'' \<mapsto> File ''foo bar'')) ''f''
       = (Some No_numeric_data, Some [])
   \<and> returned_array (read_chain_lengths_con_50 (Map.empty(''f'' \<mapsto> File ''foo bar'')) ''f'')
       = Some (Float64 [])"
proof -
  have s: "split ''foo bar'' = [''foo'', ''bar'']"
    by (simp add: split_def isspace_def)
  have "read_chain_lengths_con_50 Map.empty ''f'' = (Some File_not_found, None)
        \<and> isl (read_chain_lengths_con Map.empty ''f'')"
    using read_chain_lengths_con_50_not_found_or_empty [of Map.empty "''f''"]
    by (simp add: path_exists_def)
  moreover have
    "read_chain_lengths_con_50 (Map.empty(''f/x'' \<mapsto> Unresolvable NotADirectoryError)) ''f/x''
       = (Some File_not_found, None)
     \<and> isl (read_chain_lengths_con (Map.empty(''f/x'' \<mapsto> Unresolvable NotADirectoryError)) ''f/x'')"
    using read_chain_lengths_con_50_not_found_or_empty
            [of "Map.empty(''f/x'' \<mapsto> Unresolvable NotADirectoryError)" "''f/x''"]
    by (simp add: path_exists_def)
  moreover have "snd (read_chain_lengths_con_50 (Map.empty(''f'' \<mapsto> Unreadable)) ''f'') = None"
    using read_chain_lengths_con_50_not_found_or_empty [of "Map.empty(''f'' \<mapsto> Unreadable)" "''f''"]
    by simp
  moreover have "read_chain_lengths_con_50 (Map.empty(''f'' \<mapsto> File ''foo bar'')) ''f''
       = (Some No_numeric_data, Some [])
     \<and> returned_array (read_chain_lengths_con_50 (Map.empty(''f'' \<mapsto> File ''foo bar'')) ''f'')
       = Some (Float64 [])"
    using read_chain_lengths_con_50_not_found_or_empty
            [of "Map.empty(''f'' \<mapsto> File ''foo bar'')" "''f''" "''foo bar''"]
    by (simp add: s isdigit_def strip_def isspace_def digit_char_def returned_array_def
        np_array_def)
  ultimately show ?thesis using s by (simp add: returned_array_def np_array_def)
qed

text \<open>
  Claim C9 as stated fails. A file whose only token is the superscript two holds no
  token that parses as an integer, and the loader of comparison\_MWD\_con\_50.py returns
  \<^verbatim>\<open>None\<close> for it, the value it returns for a missing file, not the empty array. The
  loader of comparison\_MWD\_con.py raises ValueError on a file of words.
\<close>

theorem loaders_no_parse_empty:
  "py_int [CHR 0xB2] = None
   \<and> snd (read_chain_lengths_con_50 (Map.empty(''f'' \<mapsto> File [CHR 0xB2])) ''f'') = None
   \<and> snd (read_chain_lengths_con_50 Map.empty ''f'') = None
   \<and> py_int ''foo'' = None
   \<and> read_chain_lengths_con (Map.empty(''f'' \<mapsto> File ''foo'')) ''f'' = Inl ValueError"
  by (simp add: read_chain_lengths_con_def read_chain_lengths_con_50_def path_exists_def split_def isspace_def
      isdigit_def strip_def digit_char_def py_int_def decimal_char_def dec_def
      int_max_str_digits_def digit_value_def)

text \<open>
  Claim C10, as the code has it: on every path whose file, if it is one, has only tokens
  made of digit characters, the two loaders return the same sequence or both fail.
\<close>

theorem loaders_agree_on_digit_tokens:
  assumes "\<forall>content. fs filepath = Some (File content)
             \<longrightarrow> list_all (\<lambda>t. isdigit (strip t)) (split content)"
  shows "same_result (read_chain_lengths_con fs filepath) (read_chain_lengths_con_50 fs filepath)"
proof (cases "fs filepath")
  case None
  then show ?thesis
    by (simp add: same_result_def read_chain_lengths_con_def read_chain_lengths_con_50_def path_exists_def)
next
  case (Some e)
  show ?thesis
  proof (cases e)
    case (File content)
    with Some assms have "filter (\<lambda>t. isdigit (strip t)) (split content) = split content"
      by (simp add: filter_list_all)
    with Some File show ?thesis
      by (simp add: same_result_def read_chain_lengths_con_def read_chain_lengths_con_50_def path_exists_def
          split: option.splits)
  next
    case Unreadable
    with Some show ?thesis
      by (simp add: same_result_def read_chain_lengths_con_def read_chain_lengths_con_50_def
          path_exists_def)
  next
    case (Unresolvable e)
    with Some show ?thesis
      by (simp add: same_result_def read_chain_lengths_con_def read_chain_lengths_con_50_def
          path_exists_def)
  qed
qed

theorem loaders_agree_on_digit_tokens_witness:
  "split ''10 20'' = [''10'', ''20'']
   \<and> read_chain_lengths_con (Map.empty(''f'' \<mapsto> File ''10 20'')) ''f'' = Inr [10, 20]
   \<and> snd (read_chain_lengths_con_50 (Map.empty(''f'' \<mapsto> File ''10 20'')) ''f'') = Some [10, 20]"
proof -
  have s: "split ''10 20'' = [''10'', ''20'']"
    by (simp add: split_def isspace_def)
  have c: "read_chain_lengths_con (Map.empty(''f'' \<mapsto> File ''10 20'')) ''f'' = Inr [10, 20]"
    by (simp add: read_chain_lengths_con_def s strip_def isspace_def py_int_def decimal_char_def
        dec_def int_max_str_digits_def digit_value_def)
  have "same_result (read_chain_lengths_con (Map.empty(''f'' \<mapsto> File ''10 20'')) ''f'')
          (read_chain_lengths_con_50 (Map.empty(''f'' \<mapsto> File ''10 20'')) ''f'')"
    by (rule loaders_agree_on_digit_tokens)
      (simp add: s isdigit_def strip_def isspace_def digit_char_def)
  with c s show ?thesis
    by (simp add: same_result_def)
qed

text \<open>
  Claim C10 as stated fails: on a file with a word in it one loader raises and the other
  returns the numbers, and on a signed number one returns it and the other drops it.
\<close>

theorem loaders_differ:
  "read_chain_lengths_con (Map.empty(''f'' \<mapsto> File ''10 foo'')) ''f'' = Inl ValueError
   \<and> read_chain_lengths_con_50 (Map.empty(''f'' \<mapsto> File ''10 foo'')) ''f'' = (None, Some [10])
   \<and> read_chain_lengths_con (Map.empty(''f'' \<mapsto> File ''10 +7'')) ''f'' = Inr [10, 7]
   \<and> read_chain_lengths_con_50 (Map.empty(''f'' \<mapsto> File ''10 +7'')) ''f'' = (None, Some [10])"
  by (simp add: read_chain_lengths_con_def read_chain_lengths_con_50_def path_exists_def split_def isspace_def
      isdigit_def strip_def digit_char_def py_int_def decimal_char_def dec_def
      int_max_str_digits_def digit_value_def)

section \<open>Properties of the moments\<close>

lemma int64_id: "- (2 ^ 63) \<le> x \<Longrightarrow> x < 2 ^ 63 \<Longrightarrow> int64 x = x"
  by (simp add: int64_def)

lemma int64_add: "int64 (int64 a + b) = int64 (a + b)"
proof -
  have "(int64 a + b + 2 ^ 63) mod 2 ^ 64 = ((a + 2 ^ 63) mod 2 ^ 64 + b) mod 2 ^ 64"
    by (simp add: int64_def)
  also have "\<dots> = (a + 2 ^ 63 + b) mod 2 ^ 64"
    by (rule mod_add_left_eq)
  also have "a + 2 ^ 63 + b = a + b + 2 ^ 63"
    by simp
  finally show ?thesis
    unfolding int64_def by (simp only:)
qed

lemma np_sum_stepwise: "foldl (\<lambda>acc x. int64 (acc + x)) (int64 s) a = int64 (s + sum_list a)"
  by (induction a arbitrary: s) (simp_all add: int64_add add.assoc)

lemma np_sum_foldl: "np_sum a = foldl (\<lambda>acc x. int64 (acc + x)) 0 a"
  using np_sum_stepwise [of 0 a] by (simp add: np_sum_def int64_def)

lemma sum_list_ge_length:
  fixes xs :: "int list"
  shows "\<forall>x\<in>set xs. 1 \<le> x \<Longrightarrow> int (length xs) \<le> sum_list xs"
  by (induction xs) auto

lemma of_int_sum_list: "real_of_int (sum_list xs) = sum_list (map real_of_int xs)"
  by (induction xs) auto

lemma of_int_sum_squares:
  "real_of_int (sum_list (map (\<lambda>x. x\<^sup>2) xs)) = sum_list (map (\<lambda>x. (real_of_int x)\<^sup>2) xs)"
  by (induction xs) auto

lemma np_sum_exact:
  assumes "xs \<noteq> []" "\<forall>x\<in>set xs. 1 \<le> x" "sum_list xs < 2 ^ 63"
  shows "np_sum xs = sum_list xs" "0 < sum_list xs"
proof -
  from assms(1) have "0 < int (length xs)" by simp
  with sum_list_ge_length [OF assms(2)] show "0 < sum_list xs" by linarith
  with assms(3) show "np_sum xs = sum_list xs"
    by (simp add: np_sum_def int64_id)
qed

lemma sum_squares_shift:
  fixes ys :: "real list"
  shows "sum_list (map (\<lambda>y. (y - c)\<^sup>2) ys)
           = sum_list (map (\<lambda>y. y\<^sup>2) ys) - 2 * c * sum_list ys + real (length ys) * c\<^sup>2"
  by (induction ys) (auto simp: power2_eq_square algebra_simps)

lemma spread_identity:
  fixes ys :: "real list"
  assumes "ys \<noteq> []"
  shows "real (length ys) * sum_list (map (\<lambda>y. y\<^sup>2) ys) - (sum_list ys)\<^sup>2
           = real (length ys) * sum_list (map (\<lambda>y. (y - sum_list ys / real (length ys))\<^sup>2) ys)"
proof -
  from assms have n: "real (length ys) \<noteq> 0" by simp
  show ?thesis
    unfolding sum_squares_shift using n
    by (simp add: power2_eq_square field_simps)
qed

lemma sum_list_all_equal:
  fixes ys :: "real list"
  shows "\<forall>y\<in>set ys. y = c \<Longrightarrow> sum_list ys = real (length ys) * c"
  by (induction ys) (auto simp: algebra_simps)

lemma cauchy_list:
  fixes ys :: "real list"
  assumes "ys \<noteq> []"
  shows "(sum_list ys)\<^sup>2 \<le> real (length ys) * sum_list (map (\<lambda>y. y\<^sup>2) ys)"
    and "(sum_list ys)\<^sup>2 = real (length ys) * sum_list (map (\<lambda>y. y\<^sup>2) ys)
           \<longleftrightarrow> (\<forall>a\<in>set ys. \<forall>b\<in>set ys. a = b)"
proof -
  let ?n = "real (length ys)"
  let ?m = "sum_list ys / ?n"
  let ?d = "sum_list (map (\<lambda>y. (y - ?m)\<^sup>2) ys)"
  from assms have n: "0 < ?n" by simp
  have d0: "0 \<le> ?d" by (rule sum_list_nonneg) auto
  have id: "?n * sum_list (map (\<lambda>y. y\<^sup>2) ys) - (sum_list ys)\<^sup>2 = ?n * ?d"
    by (rule spread_identity [OF assms])
  from n d0 have "0 \<le> ?n * ?d" by simp
  with id show "(sum_list ys)\<^sup>2 \<le> ?n * sum_list (map (\<lambda>y. y\<^sup>2) ys)" by linarith
  have "(sum_list ys)\<^sup>2 = ?n * sum_list (map (\<lambda>y. y\<^sup>2) ys) \<longleftrightarrow> ?d = 0"
    using id n by auto
  also have "\<dots> \<longleftrightarrow> (\<forall>y\<in>set ys. y = ?m)"
  proof -
    have "?d = 0 \<longleftrightarrow> (\<forall>v\<in>set (map (\<lambda>y. (y - ?m)\<^sup>2) ys). v = 0)"
      by (rule sum_list_nonneg_eq_0_iff) auto
    then show ?thesis by auto
  qed
  also have "\<dots> \<longleftrightarrow> (\<forall>a\<in>set ys. \<forall>b\<in>set ys. a = b)"
  proof
    assume "\<forall>y\<in>set ys. y = ?m"
    then show "\<forall>a\<in>set ys. \<forall>b\<in>set ys. a = b" by metis
  next
    assume eq: "\<forall>a\<in>set ys. \<forall>b\<in>set ys. a = b"
    from assms obtain c where c: "c \<in> set ys" by (cases ys) auto
    with eq have all: "\<forall>y\<in>set ys. y = c" by blast
    then have "sum_list ys = ?n * c" by (rule sum_list_all_equal)
    with n have "?m = c" by simp
    with all show "\<forall>y\<in>set ys. y = ?m" by simp
  qed
  finally show "(sum_list ys)\<^sup>2 = ?n * sum_list (map (\<lambda>y. y\<^sup>2) ys)
           \<longleftrightarrow> (\<forall>a\<in>set ys. \<forall>b\<in>set ys. a = b)" .
qed

lemma compute_moments_exact:
  assumes "xs \<noteq> []" "\<forall>x\<in>set xs. 1 \<le> x" "sum_list xs < 2 ^ 63"
  shows "compute_moments xs =
           Inr \<lparr>Mn = real_of_int (sum_list xs) / real (length xs),
                Mw = real_of_int (sum_list (map (\<lambda>x. x\<^sup>2) xs)) / real_of_int (sum_list xs),
                PDI = real_of_int (sum_list (map (\<lambda>x. x\<^sup>2) xs)) / real_of_int (sum_list xs)
                        / (real_of_int (sum_list xs) / real (length xs))\<rparr>"
  using np_sum_exact [OF assms]
  by (simp add: compute_moments_def Let_def np_mean_def of_int_sum_squares)

lemma member_le_sum_list_int:
  fixes xs :: "int list"
  shows "\<forall>x\<in>set xs. 0 \<le> x \<Longrightarrow> y \<in> set xs \<Longrightarrow> y \<le> sum_list xs"
proof (induction xs)
  case Nil
  then show ?case by simp
next
  case (Cons x xs)
  then have "0 \<le> sum_list xs" by (simp add: sum_list_nonneg)
  with Cons show ?case by auto
qed

lemma moments_order:
  fixes s q n :: real
  assumes "0 < s" "0 < n" "s\<^sup>2 \<le> n * q"
  shows "s / n \<le> q / s" and "1 \<le> q / s / (s / n)"
    and "q / s = s / n \<longleftrightarrow> s\<^sup>2 = n * q" and "q / s / (s / n) = 1 \<longleftrightarrow> s\<^sup>2 = n * q"
  using assms by (auto simp: field_simps power2_eq_square)

text \<open>
  Claim C1, as the code has it. For every non-empty sample of integers each at least 1
  whose sum is below \<open>2 ^ 63\<close>, lines 63 to 70 return Mn equal to the arithmetic mean, Mw
  equal to the sum of the squares over the sum, and PDI equal to Mw over Mn; on the
  sample 1, 2, 3 they return 2, 14/6 and 7/6.
\<close>

theorem compute_moments_formulas:
  "(xs \<noteq> [] \<and> (\<forall>x\<in>set xs. 1 \<le> x) \<and> sum_list xs < 2 ^ 63
     \<longrightarrow> compute_moments xs =
           Inr \<lparr>Mn = real_of_int (sum_list xs) / real (length xs),
                Mw = real_of_int (sum_list (map (\<lambda>x. x\<^sup>2) xs)) / real_of_int (sum_list xs),
                PDI = real_of_int (sum_list (map (\<lambda>x. x\<^sup>2) xs)) / real_of_int (sum_list xs)
                        / (real_of_int (sum_list xs) / real (length xs))\<rparr>)
   \<and> compute_moments [1, 2, 3] = Inr \<lparr>Mn = 2, Mw = 14 / 6, PDI = 7 / 6\<rparr>"
proof (intro conjI impI)
  assume "xs \<noteq> [] \<and> (\<forall>x\<in>set xs. 1 \<le> x) \<and> sum_list xs < 2 ^ 63"
  then show "compute_moments xs =
           Inr \<lparr>Mn = real_of_int (sum_list xs) / real (length xs),
                Mw = real_of_int (sum_list (map (\<lambda>x. x\<^sup>2) xs)) / real_of_int (sum_list xs),
                PDI = real_of_int (sum_list (map (\<lambda>x. x\<^sup>2) xs)) / real_of_int (sum_list xs)
                        / (real_of_int (sum_list xs) / real (length xs))\<rparr>"
    by (intro compute_moments_exact) simp_all
next
  show "compute_moments [1, 2, 3] = Inr \<lparr>Mn = 2, Mw = 14 / 6, PDI = 7 / 6\<rparr>"
    by (simp add: compute_moments_def np_sum_def int64_def np_mean_def)
qed

theorem compute_moments_formulas_witness:
  "compute_moments [3, 5, 10] = Inr \<lparr>Mn = 6, Mw = 134 / 18, PDI = 134 / 18 / 6\<rparr>"
  using compute_moments_formulas [of "[3, 5, 10]"] by simp

text \<open>
  Claim C1 as stated fails where the \<^verbatim>\<open>int64\<close> sum of the lengths wraps: on two chains
  of length \<open>2 ^ 62\<close> the sum is \<open>- (2 ^ 63)\<close>, and Mw comes out as \<open>- (2 ^ 62)\<close>, while the sum
  of the squares over the sum is \<open>2 ^ 62\<close>.
\<close>

theorem compute_moments_sum_wraps:
  "compute_moments [4611686018427387904, 4611686018427387904]
     = Inr \<lparr>Mn = 4611686018427387904, Mw = - 4611686018427387904, PDI = - 1\<rparr>
   \<and> (4611686018427387904\<^sup>2 + 4611686018427387904\<^sup>2)
        / (4611686018427387904 + 4611686018427387904) = (4611686018427387904 :: real)"
  by (simp add: compute_moments_def np_sum_def int64_def np_mean_def)

section \<open>Properties of the moments with the rounding\<close>

lemma add_reduce_exists: "ys \<noteq> [] \<Longrightarrow> \<exists>s. add_reduce (mset ys) s"
proof (induction ys rule: induct_list012)
  case 1
  then show ?case by simp
next
  case (2 y)
  show ?case using add_reduce.one [of y] by auto
next
  case (3 y z zs)
  then obtain s where "add_reduce (mset (z # zs)) s" by auto
  from add_reduce.add [OF add_reduce.one [of y] this]
  have "add_reduce ({#y#} + mset (z # zs)) (rnd64 (y + s))" .
  moreover have "mset (y # z # zs) = {#y#} + mset (z # zs)" by simp
  ultimately show ?case by metis
qed

lemma sum_mset_Nats: "\<forall>x\<in>#A. x \<in> \<nat> \<Longrightarrow> sum_mset A \<in> (\<nat> :: real set)"
  by (induction A) (auto intro: Nats_add)

lemma sum_mset_Nats_nonneg: "\<forall>x\<in>#A. x \<in> \<nat> \<Longrightarrow> (0::real) \<le> sum_mset A"
  by (induction A) (auto simp: Nats_def)

lemma rnd64_Nats:
  assumes "x \<in> \<nat>" "x \<le> 2 ^ 53"
  shows "rnd64 x = x"
proof -
  from assms(1) obtain n where n: "x = real n" by (auto simp: Nats_def)
  with assms(2) have "real n \<le> real (2 ^ 53)" by simp
  then have "n \<le> 2 ^ 53" by (simp only: of_nat_le_iff)
  then show ?thesis unfolding n by (rule rnd64_of_nat)
qed

lemma add_reduce_exact:
  assumes "add_reduce A s" "\<forall>x\<in>#A. x \<in> \<nat>" "sum_mset A \<le> 2 ^ 53"
  shows "s = sum_mset A"
  using assms
proof (induction rule: add_reduce.induct)
  case (one x)
  then show ?case by simp
next
  case (add A a B b)
  from add.prems(1) have nA: "\<forall>x\<in>#A. x \<in> \<nat>" and nB: "\<forall>x\<in>#B. x \<in> \<nat>"
    by auto
  from sum_mset_Nats_nonneg [OF nA] sum_mset_Nats_nonneg [OF nB] add.prems(2)
  have "sum_mset A \<le> 2 ^ 53" "sum_mset B \<le> 2 ^ 53" by simp_all
  with add.IH nA nB have ab: "a = sum_mset A" "b = sum_mset B" by simp_all
  have "sum_mset (A + B) \<in> \<nat>"
    using add.prems(1) by (rule sum_mset_Nats)
  from this add.prems(2) have "rnd64 (sum_mset (A + B)) = sum_mset (A + B)"
    by (rule rnd64_Nats)
  then show ?case by (simp add: ab)
qed

lemma add_reduce_of_int_list:
  assumes "add_reduce (mset (map real_of_int ks)) s" "\<forall>k\<in>set ks. 0 \<le> k" "sum_list ks \<le> 2 ^ 53"
  shows "s = real_of_int (sum_list ks)"
proof -
  have n: "\<forall>x\<in>#mset (map real_of_int ks). x \<in> \<nat>"
    using assms(2) by (auto simp: Nats_altdef2)
  have e: "sum_mset (mset (map real_of_int ks)) = real_of_int (sum_list ks)"
    by (simp only: sum_mset_sum_list of_int_sum_list)
  from assms(3) have "real_of_int (sum_list ks) \<le> real_of_int (2 ^ 53)"
    by (simp only: of_int_le_iff)
  then have "real_of_int (sum_list ks) \<le> 2 ^ 53"
    by simp
  then have "sum_mset (mset (map real_of_int ks)) \<le> 2 ^ 53"
    by (simp only: e)
  from add_reduce_exact [OF assms(1) n this] e show ?thesis by simp
qed

lemma sum_le_sum_squares:
  fixes xs :: "int list"
  assumes "\<forall>x\<in>set xs. 1 \<le> x"
  shows "sum_list xs \<le> sum_list (map (\<lambda>x. x\<^sup>2) xs)"
  using assms
proof (induction xs)
  case Nil
  then show ?case by simp
next
  case (Cons x xs)
  from Cons.prems have "1 \<le> x" by simp
  then have "x * 1 \<le> x * x" by (intro mult_left_mono) simp_all
  moreover from Cons have "sum_list xs \<le> sum_list (map (\<lambda>x. x\<^sup>2) xs)" by simp
  ultimately show ?case by (simp add: power2_eq_square)
qed

lemma to_float64_exact: "0 \<le> k \<Longrightarrow> k \<le> 2 ^ 53 \<Longrightarrow> to_float64 k = real_of_int k"
  by (simp add: to_float64_def rnd64_of_int)

lemma float64_sums_exact:
  assumes "xs \<noteq> []" "\<forall>x\<in>set xs. 1 \<le> x" "sum_list (map (\<lambda>x. x\<^sup>2) xs) \<le> 2 ^ 53"
  shows "map to_float64 xs = map real_of_int xs"
    and "map (\<lambda>x. rnd64 (to_float64 x * to_float64 x)) xs = map real_of_int (map (\<lambda>x. x\<^sup>2) xs)"
    and "np_sum xs = sum_list xs"
    and "np_sum (map (\<lambda>x. int64 (x * x)) xs) = sum_list (map (\<lambda>x. x\<^sup>2) xs)"
    and "0 < sum_list xs" and "sum_list xs \<le> 2 ^ 53"
proof -
  have sq: "x\<^sup>2 \<le> 2 ^ 53" "0 \<le> x\<^sup>2" "1 \<le> x" "x \<le> 2 ^ 53" if "x \<in> set xs" for x
  proof -
    from that have "x\<^sup>2 \<in> set (map (\<lambda>x. x\<^sup>2) xs)" by simp
    then have "x\<^sup>2 \<le> sum_list (map (\<lambda>x. x\<^sup>2) xs)"
      by (intro member_le_sum_list_int) auto
    with assms(3) show "x\<^sup>2 \<le> 2 ^ 53" by linarith
    show "0 \<le> x\<^sup>2" by simp
    from that assms(2) show "1 \<le> x" by simp
    then have "x * 1 \<le> x * x" by (intro mult_left_mono) simp_all
    with \<open>x\<^sup>2 \<le> 2 ^ 53\<close> show "x \<le> 2 ^ 53" by (simp add: power2_eq_square)
  qed
  have tf: "to_float64 x = real_of_int x" if "x \<in> set xs" for x
  proof (rule to_float64_exact)
    from sq(3) [OF that] show "0 \<le> x" by simp
    from sq(4) [OF that] show "x \<le> 2 ^ 53" .
  qed
  show f: "map to_float64 xs = map real_of_int xs"
    by (rule map_cong [OF refl]) (rule tf)
  show "map (\<lambda>x. rnd64 (to_float64 x * to_float64 x)) xs = map real_of_int (map (\<lambda>x. x\<^sup>2) xs)"
    unfolding map_map comp_def
  proof (rule map_cong [OF refl])
    fix x assume x: "x \<in> set xs"
    then have "to_float64 x = real_of_int x" by (rule tf)
    moreover have "rnd64 (real_of_int (x\<^sup>2)) = real_of_int (x\<^sup>2)"
      using sq(1,2) [OF x] by (rule rnd64_of_int [rotated])
    ultimately show "rnd64 (to_float64 x * to_float64 x) = real_of_int (x\<^sup>2)"
      by (simp add: power2_eq_square)
  qed
  have le: "sum_list xs \<le> sum_list (map (\<lambda>x. x\<^sup>2) xs)"
    using assms(2) by (rule sum_le_sum_squares)
  with assms(3) show s53: "sum_list xs \<le> 2 ^ 53" by linarith
  then have s63: "sum_list xs < 2 ^ 63" by simp
  from np_sum_exact [OF assms(1,2) s63] show "np_sum xs = sum_list xs" "0 < sum_list xs" .
  have m: "map (\<lambda>x. int64 (x * x)) xs = map (\<lambda>x. x\<^sup>2) xs"
  proof (rule map_cong [OF refl])
    fix x assume x: "x \<in> set xs"
    from sq(1) [OF x] have "x * x < 2 ^ 63" by (simp add: power2_eq_square)
    moreover have "- (2 ^ 63) \<le> x * x"
      by (rule order_trans [of _ 0]) simp_all
    ultimately have "int64 (x * x) = x * x" by (rule int64_id [rotated])
    then show "int64 (x * x) = x\<^sup>2" by (simp add: power2_eq_square)
  qed
  have "0 \<le> sum_list (map (\<lambda>x. x\<^sup>2) xs)"
    by (rule sum_list_nonneg) auto
  with assms(3) have "int64 (sum_list (map (\<lambda>x. x\<^sup>2) xs)) = sum_list (map (\<lambda>x. x\<^sup>2) xs)"
    by (intro int64_id) simp_all
  then show "np_sum (map (\<lambda>x. int64 (x * x)) xs) = sum_list (map (\<lambda>x. x\<^sup>2) xs)"
    unfolding np_sum_def m .
qed

lemma float64_sum_results:
  assumes "xs \<noteq> []" "\<forall>x\<in>set xs. 1 \<le> x" "sum_list (map (\<lambda>x. x\<^sup>2) xs) \<le> 2 ^ 53"
  shows "add_reduce (mset (map to_float64 xs)) s \<longleftrightarrow> s = real_of_int (sum_list xs)"
    and "add_reduce (mset (map (\<lambda>x. rnd64 (to_float64 x * to_float64 x)) xs)) q
           \<longleftrightarrow> q = real_of_int (sum_list (map (\<lambda>x. x\<^sup>2) xs))"
proof -
  note e = float64_sums_exact [OF assms]
  have a: "s = real_of_int (sum_list xs)" if "add_reduce (mset (map real_of_int xs)) s" for s
    using that
  proof (rule add_reduce_of_int_list)
    show "\<forall>k\<in>set xs. 0 \<le> k" using assms(2) by fastforce
    show "sum_list xs \<le> 2 ^ 53" by (rule e(6))
  qed
  have b: "q = real_of_int (sum_list (map (\<lambda>x. x\<^sup>2) xs))"
    if "add_reduce (mset (map real_of_int (map (\<lambda>x. x\<^sup>2) xs))) q" for q
    using that
  proof (rule add_reduce_of_int_list)
    show "\<forall>k\<in>set (map (\<lambda>x. x\<^sup>2) xs). 0 \<le> k" by simp
    show "sum_list (map (\<lambda>x. x\<^sup>2) xs) \<le> 2 ^ 53" by (rule assms(3))
  qed
  from assms(1) obtain s0 where s0: "add_reduce (mset (map real_of_int xs)) s0"
    using add_reduce_exists [of "map real_of_int xs"] by auto
  from assms(1) obtain q0 where q0: "add_reduce (mset (map real_of_int (map (\<lambda>x. x\<^sup>2) xs))) q0"
    using add_reduce_exists [of "map real_of_int (map (\<lambda>x. x\<^sup>2) xs)"] by auto
  show "add_reduce (mset (map to_float64 xs)) s \<longleftrightarrow> s = real_of_int (sum_list xs)"
    unfolding e(1) using a [of s] a [OF s0] s0 by auto
  show "add_reduce (mset (map (\<lambda>x. rnd64 (to_float64 x * to_float64 x)) xs)) q
           \<longleftrightarrow> q = real_of_int (sum_list (map (\<lambda>x. x\<^sup>2) xs))"
    unfolding e(2) using b [of q] b [OF q0] q0 by auto
qed

lemma rounded_moments_props:
  assumes "xs \<noteq> []" "\<forall>x\<in>set xs. 1 \<le> x" "sum_list (map (\<lambda>x. x\<^sup>2) xs) \<le> 2 ^ 53"
  shows "1 \<le> Mn (rounded_moments xs)"
    and "Mn (rounded_moments xs) \<le> Mw (rounded_moments xs)"
    and "1 \<le> PDI (rounded_moments xs)"
    and "(\<forall>a\<in>set xs. \<forall>b\<in>set xs. a = b)
           \<Longrightarrow> Mw (rounded_moments xs) = Mn (rounded_moments xs) \<and> PDI (rounded_moments xs) = 1"
proof -
  let ?ys = "map real_of_int xs"
  let ?s = "real_of_int (sum_list xs)"
  let ?q = "real_of_int (sum_list (map (\<lambda>x. x\<^sup>2) xs))"
  let ?n = "real (length xs)"
  note e = float64_sums_exact [OF assms]
  from e(5) have s: "0 < ?s" by simp
  from assms(1) have n: "0 < ?n" by simp
  from assms(1) have ys: "?ys \<noteq> []" by simp
  have sums: "sum_list ?ys = ?s" "sum_list (map (\<lambda>y. y\<^sup>2) ?ys) = ?q" "real (length ?ys) = ?n"
    by (simp_all add: of_int_sum_list of_int_sum_squares comp_def)
  from cauchy_list(1) [OF ys] have c: "?s\<^sup>2 \<le> ?n * ?q"
    by (simp only: sums)
  have "(?s\<^sup>2 = ?n * ?q) \<longleftrightarrow> (\<forall>a\<in>set ?ys. \<forall>b\<in>set ?ys. a = b)"
    using cauchy_list(2) [OF ys] by (simp only: sums)
  also have "\<dots> \<longleftrightarrow> (\<forall>a\<in>set xs. \<forall>b\<in>set xs. a = b)"
    by auto
  finally have eq: "(?s\<^sup>2 = ?n * ?q) \<longleftrightarrow> (\<forall>a\<in>set xs. \<forall>b\<in>set xs. a = b)" .
  from sum_list_ge_length [OF assms(2)] have "?n \<le> ?s"
    by (metis of_int_le_iff of_int_of_nat_eq)
  with n have one: "1 \<le> ?s / ?n" by simp
  have mn1: "1 \<le> rnd64 (?s / ?n)"
    using rnd64_mono [of 1 "?s / ?n"] one by (simp add: rnd64_one)
  have le: "rnd64 (?s / ?n) \<le> rnd64 (?q / ?s)"
  proof (rule rnd64_mono)
    from one show "0 < ?s / ?n" by simp
    from moments_order(1) [OF s n c] show "?s / ?n \<le> ?q / ?s" .
  qed
  from mn1 le have "1 \<le> rnd64 (?q / ?s) / rnd64 (?s / ?n)" by simp
  then have pdi: "1 \<le> rnd64 (rnd64 (?q / ?s) / rnd64 (?s / ?n))"
    using rnd64_mono [of 1 "rnd64 (?q / ?s) / rnd64 (?s / ?n)"] by (simp add: rnd64_one)
  from mn1 show "1 \<le> Mn (rounded_moments xs)" by (simp add: rounded_moments_def Let_def)
  from le show "Mn (rounded_moments xs) \<le> Mw (rounded_moments xs)"
    by (simp add: rounded_moments_def Let_def)
  from pdi show "1 \<le> PDI (rounded_moments xs)" by (simp add: rounded_moments_def Let_def)
  assume "\<forall>a\<in>set xs. \<forall>b\<in>set xs. a = b"
  with eq have "?s\<^sup>2 = ?n * ?q" by simp
  with moments_order(3) [OF s n c] have "?q / ?s = ?s / ?n" by simp
  with mn1 show "Mw (rounded_moments xs) = Mn (rounded_moments xs) \<and> PDI (rounded_moments xs) = 1"
    by (simp add: rounded_moments_def Let_def rnd64_one)
qed

lemma compute_moments_float64_exact_sums:
  assumes "xs \<noteq> []" "\<forall>x\<in>set xs. 1 \<le> x" "sum_list (map (\<lambda>x. x\<^sup>2) xs) \<le> 2 ^ 53"
  shows "compute_moments_float64 xs r \<longleftrightarrow> r = Inr (rounded_moments xs)"
proof -
  note e = float64_sums_exact [OF assms]
  from e(5,6) have t: "to_float64 (sum_list xs) = real_of_int (sum_list xs)"
    by (intro to_float64_exact) simp_all
  from e(5) show ?thesis
    unfolding compute_moments_float64_def Let_def e(3) t float64_sum_results [OF assms]
      rounded_moments_def
    by auto
qed

lemma con_moments_float64_exact_sums:
  assumes "xs \<noteq> []" "\<forall>x\<in>set xs. 1 \<le> x" "sum_list (map (\<lambda>x. x\<^sup>2) xs) \<le> 2 ^ 53"
  shows "con_moments_float64 xs r \<longleftrightarrow> r = Some (rounded_moments xs)"
proof -
  note e = float64_sums_exact [OF assms]
  from e(5,6) have t: "to_float64 (sum_list xs) = real_of_int (sum_list xs)"
    by (intro to_float64_exact) simp_all
  have "0 \<le> sum_list (map (\<lambda>x. x\<^sup>2) xs)" by (rule sum_list_nonneg) auto
  with assms(3) have t2: "to_float64 (sum_list (map (\<lambda>x. x\<^sup>2) xs))
                             = real_of_int (sum_list (map (\<lambda>x. x\<^sup>2) xs))"
    by (intro to_float64_exact) simp_all
  from rounded_moments_props(1) [OF assms]
  have "rnd64 (real_of_int (sum_list xs) / real (length xs)) \<noteq> 0"
    by (simp add: rounded_moments_def Let_def)
  with e(5) show ?thesis
    unfolding con_moments_float64_def Let_def e(3,4) t t2 float64_sum_results [OF assms]
      rounded_moments_def
    by auto
qed

lemma scale_abs:
  fixes q k x :: real
  assumes "0 < q"
  shows "q * \<bar>k - x / q\<bar> = \<bar>q * k - x\<bar>"
proof -
  from assms have "q * k - x = q * (k - x / q)"
    by (simp add: right_diff_distrib)
  then have "\<bar>q * k - x\<bar> = \<bar>q\<bar> * \<bar>k - x / q\<bar>"
    by (simp only: abs_mult)
  with assms show ?thesis by simp
qed

lemma rnd64_error:
  assumes "0 < x"
  shows "\<bar>rnd64 x - x\<bar> \<le> x / 2 ^ 53"
proof -
  let ?e = "\<lfloor>log 2 x\<rfloor>"
  let ?q = "2 powr (of_int ?e - 52) :: real"
  let ?k = "round_half_even (x / ?q)"
  note b = binade_exists [OF assms]
  have q: "?q = 2 powr of_int ?e / 2 ^ 52" by (simp add: powr_diff)
  have qpos: "0 < ?q" by simp
  have r: "rnd64 x = ?q * of_int ?k" by (rule rnd64_pos [OF assms b])
  from round_half_even_bounds(1,2) [of "x / ?q"]
  have "\<bar>of_int ?k - x / ?q\<bar> \<le> 1 / 2" by linarith
  then have "?q * \<bar>of_int ?k - x / ?q\<bar> \<le> ?q * (1 / 2)"
    using qpos by (intro mult_left_mono) simp_all
  moreover have "?q * \<bar>of_int ?k - x / ?q\<bar> = \<bar>?q * of_int ?k - x\<bar>"
    using qpos by (rule scale_abs)
  moreover have "?q * (1 / 2) \<le> x / 2 ^ 53"
    unfolding q using b(1) by (simp add: field_simps)
  ultimately show ?thesis unfolding r by linarith
qed

lemma rnd64_bounds:
  assumes "0 < x"
  shows "x * (1 - 1 / 2 ^ 53) \<le> rnd64 x" and "rnd64 x \<le> x * (1 + 1 / 2 ^ 53)"
proof -
  define d where "d = x / 2 ^ 53"
  have e: "\<bar>rnd64 x - x\<bar> \<le> d" unfolding d_def by (rule rnd64_error [OF assms])
  have l: "x * (1 - 1 / 2 ^ 53) = x - d" and u: "x * (1 + 1 / 2 ^ 53) = x + d"
    unfolding d_def by (simp_all add: algebra_simps)
  from e show "x * (1 - 1 / 2 ^ 53) \<le> rnd64 x" unfolding l by linarith
  from e show "rnd64 x \<le> x * (1 + 1 / 2 ^ 53)" unfolding u by linarith
qed

lemma rnd64_next_after_one: "rnd64 (1 + 1 / 2 ^ 52) = 1 + 1 / 2 ^ 52"
proof -
  have "(1 + 1 / 2 ^ 52) * 2 ^ 52 = real_of_int 4503599627370497" by simp
  then have "round_half_even ((1 + 1 / 2 ^ 52) * 2 ^ 52) = 4503599627370497"
    by (simp only: round_half_even_of_int)
  from rnd64_down [of "1 + 1 / 2 ^ 52" 52, OF _ _ this] show ?thesis by simp
qed

lemma rounded_ratio_strict:
  fixes m w :: real
  assumes "0 < m" "m * (1 + 1 / 2 ^ 50) \<le> w"
  shows "rnd64 m < rnd64 w" and "1 < rnd64 (rnd64 w / rnd64 m)"
proof -
  from assms(1) have "0 < m * (1 + 1 / 2 ^ 50)" by simp
  with assms(2) have w: "0 < w" by linarith
  note mn = rnd64_bounds(2) [OF assms(1)]
  note rnd64_bounds(1) [OF w]
  moreover have "m * (1 + 1 / 2 ^ 50) * (1 - 1 / 2 ^ 53) \<le> w * (1 - 1 / 2 ^ 53)"
    using assms(2) by (intro mult_right_mono) simp_all
  ultimately have mw: "m * ((1 + 1 / 2 ^ 50) * (1 - 1 / 2 ^ 53)) \<le> rnd64 w"
    by (simp add: mult.assoc)
  have mpos: "0 < rnd64 m"
  proof -
    note rnd64_bounds(1) [OF assms(1)]
    moreover from assms(1) have "0 < m * (1 - 1 / 2 ^ 53)" by simp
    ultimately show ?thesis by linarith
  qed
  have c: "(1 + 1 / 2 ^ 52 :: real) \<le> (1 + 1 / 2 ^ 50) * (1 - 1 / 2 ^ 53) / (1 + 1 / 2 ^ 53)"
    by simp
  have "m * ((1 + 1 / 2 ^ 50) * (1 - 1 / 2 ^ 53)) / (m * (1 + 1 / 2 ^ 53)) \<le> rnd64 w / rnd64 m"
    using assms(1) mw mpos mn by (intro frac_le) simp_all
  moreover have "m * ((1 + 1 / 2 ^ 50) * (1 - 1 / 2 ^ 53)) / (m * (1 + 1 / 2 ^ 53))
                   = (1 + 1 / 2 ^ 50) * (1 - 1 / 2 ^ 53) / (1 + 1 / 2 ^ 53)"
    using assms(1) by simp
  ultimately have ratio: "1 + 1 / 2 ^ 52 \<le> rnd64 w / rnd64 m"
    using c by linarith
  then have "1 < rnd64 w / rnd64 m"
    by (rule less_le_trans [rotated]) simp
  with mpos show "rnd64 m < rnd64 w" by simp
  have "rnd64 (1 + 1 / 2 ^ 52) \<le> rnd64 (rnd64 w / rnd64 m)"
    by (rule rnd64_mono [OF _ ratio]) simp
  then show "1 < rnd64 (rnd64 w / rnd64 m)"
    unfolding rnd64_next_after_one by (rule less_le_trans [rotated]) simp
qed

lemma rounded_moments_strict:
  assumes "xs \<noteq> []" "\<forall>x\<in>set xs. 1 \<le> x" "(sum_list xs)\<^sup>2 \<le> 2 ^ 50"
    "\<not> (\<forall>a\<in>set xs. \<forall>b\<in>set xs. a = b)"
  shows "Mn (rounded_moments xs) < Mw (rounded_moments xs)" and "1 < PDI (rounded_moments xs)"
proof -
  let ?ys = "map real_of_int xs"
  let ?S = "sum_list xs" and ?Q = "sum_list (map (\<lambda>x. x\<^sup>2) xs)" and ?N = "int (length xs)"
  let ?s = "real_of_int ?S" and ?q = "real_of_int ?Q" and ?n = "real (length xs)"
  from assms(1) have "0 < ?N" by simp
  with sum_list_ge_length [OF assms(2)] have S: "0 < ?S" by linarith
  then have s: "0 < ?s" by simp
  from assms(1) have n: "0 < ?n" by simp
  from assms(1) have ys: "?ys \<noteq> []" by simp
  have sums: "sum_list ?ys = ?s" "sum_list (map (\<lambda>y. y\<^sup>2) ?ys) = ?q" "real (length ?ys) = ?n"
    by (simp_all add: of_int_sum_list of_int_sum_squares comp_def)
  from cauchy_list(1) [OF ys] have c: "?s\<^sup>2 \<le> ?n * ?q"
    by (simp only: sums)
  have "(?s\<^sup>2 = ?n * ?q) \<longleftrightarrow> (\<forall>a\<in>set ?ys. \<forall>b\<in>set ?ys. a = b)"
    using cauchy_list(2) [OF ys] by (simp only: sums)
  also have "\<dots> \<longleftrightarrow> (\<forall>a\<in>set xs. \<forall>b\<in>set xs. a = b)"
    by auto
  finally have "?s\<^sup>2 \<noteq> ?n * ?q" using assms(4) by simp
  with c have "?s\<^sup>2 < ?n * ?q" by simp
  then have "real_of_int (?S\<^sup>2) < real_of_int (?N * ?Q)" by simp
  then have "?S\<^sup>2 < ?N * ?Q" by (simp only: of_int_less_iff)
  then have "?S\<^sup>2 + 1 \<le> ?N * ?Q" by simp
  then have "real_of_int (?S\<^sup>2 + 1) \<le> real_of_int (?N * ?Q)" by (simp only: of_int_le_iff)
  then have gap: "?s\<^sup>2 + 1 \<le> ?n * ?q" by simp
  from assms(3) have "real_of_int (?S\<^sup>2) \<le> real_of_int (2 ^ 50)" by (simp only: of_int_le_iff)
  then have s50: "?s\<^sup>2 \<le> 2 ^ 50" by simp
  have "?s / ?n * (1 + 1 / 2 ^ 50) \<le> ?q / ?s"
  proof -
    have "?s\<^sup>2 * (1 + 1 / 2 ^ 50) = ?s\<^sup>2 + ?s\<^sup>2 / 2 ^ 50" by (simp add: algebra_simps)
    also have "\<dots> \<le> ?s\<^sup>2 + 1" using s50 by simp
    also have "\<dots> \<le> ?n * ?q" by (rule gap)
    finally have "?s * ?s * (1 + 1 / 2 ^ 50) \<le> ?n * ?q" by (simp add: power2_eq_square)
    with s n show ?thesis by (simp add: field_simps)
  qed
  moreover from s n have "0 < ?s / ?n" by simp
  ultimately have "rnd64 (?s / ?n) < rnd64 (?q / ?s)"
      "1 < rnd64 (rnd64 (?q / ?s) / rnd64 (?s / ?n))"
    by (rule rounded_ratio_strict [rotated])+
  then show "Mn (rounded_moments xs) < Mw (rounded_moments xs)" "1 < PDI (rounded_moments xs)"
    by (simp_all add: rounded_moments_def Let_def)
qed

lemma add_reduce_pair: "add_reduce (mset [a, b]) (rnd64 (a + b))"
proof -
  have "add_reduce ({#a#} + {#b#}) (rnd64 (a + b))"
    by (intro add_reduce.add add_reduce.one)
  moreover have "mset [a, b] = {#a#} + {#b#}" by simp
  ultimately show ?thesis by (simp only:)
qed

lemma compute_moments_float64_pair:
  assumes "np_sum [a, b] \<noteq> 0"
  shows "compute_moments_float64 [a, b]
           (Inr (let mn = rnd64 (rnd64 (to_float64 a + to_float64 b) / 2);
                     mw = rnd64 (rnd64 (rnd64 (to_float64 a * to_float64 a)
                                          + rnd64 (to_float64 b * to_float64 b))
                                   / to_float64 (np_sum [a, b]))
                 in \<lparr>Mn = mn, Mw = mw, PDI = rnd64 (mw / mn)\<rparr>))"
proof -
  have s: "add_reduce (mset (map to_float64 [a, b])) (rnd64 (to_float64 a + to_float64 b))"
    using add_reduce_pair [of "to_float64 a" "to_float64 b"] by (simp only: list.map)
  have q: "add_reduce (mset (map (\<lambda>x. rnd64 (to_float64 x * to_float64 x)) [a, b]))
             (rnd64 (rnd64 (to_float64 a * to_float64 a) + rnd64 (to_float64 b * to_float64 b)))"
    using add_reduce_pair [of "rnd64 (to_float64 a * to_float64 a)"
        "rnd64 (to_float64 b * to_float64 b)"]
    by (simp only: list.map)
  show ?thesis
    unfolding compute_moments_float64_def Let_def
    using assms s q by (auto intro!: exI)
qed

text \<open>
  Claim C2, as the code has it, with the rounding of \<^verbatim>\<open>float64\<close>. For every non-empty
  sequence of positive integers whose sum of squares is at most \<open>2 ^ 53\<close>, each of the two
  scripts computes one result, the same for both, with Mw at least Mn and PDI at least
  1, and with Mw equal to Mn and PDI equal to 1 if all elements are equal; if they are
  not all equal and the square of their sum is at most \<open>2 ^ 50\<close>, Mw is above Mn and PDI
  is above 1.
\<close>

theorem moments_ordering:
  assumes "xs \<noteq> []" "\<forall>x\<in>set xs. 1 \<le> x" "sum_list (map (\<lambda>x. x\<^sup>2) xs) \<le> 2 ^ 53"
  shows "\<exists>m. (\<forall>r. compute_moments_float64 xs r \<longleftrightarrow> r = Inr m)
            \<and> (\<forall>r. con_moments_float64 xs r \<longleftrightarrow> r = Some m)
            \<and> Mn m \<le> Mw m \<and> 1 \<le> PDI m
            \<and> ((\<forall>a\<in>set xs. \<forall>b\<in>set xs. a = b) \<longrightarrow> Mw m = Mn m \<and> PDI m = 1)
            \<and> ((sum_list xs)\<^sup>2 \<le> 2 ^ 50 \<and> \<not> (\<forall>a\<in>set xs. \<forall>b\<in>set xs. a = b)
                 \<longrightarrow> Mn m < Mw m \<and> 1 < PDI m)"
proof (intro exI [of _ "rounded_moments xs"] conjI allI impI)
  fix r
  show "compute_moments_float64 xs r \<longleftrightarrow> r = Inr (rounded_moments xs)"
    by (rule compute_moments_float64_exact_sums [OF assms])
next
  fix r
  show "con_moments_float64 xs r \<longleftrightarrow> r = Some (rounded_moments xs)"
    by (rule con_moments_float64_exact_sums [OF assms])
next
  show "Mn (rounded_moments xs) \<le> Mw (rounded_moments xs)"
    by (rule rounded_moments_props(2) [OF assms])
  show "1 \<le> PDI (rounded_moments xs)"
    by (rule rounded_moments_props(3) [OF assms])
next
  assume "\<forall>a\<in>set xs. \<forall>b\<in>set xs. a = b"
  with rounded_moments_props(4) [OF assms]
  show "Mw (rounded_moments xs) = Mn (rounded_moments xs)" "PDI (rounded_moments xs) = 1"
    by blast+
next
  assume "(sum_list xs)\<^sup>2 \<le> 2 ^ 50 \<and> \<not> (\<forall>a\<in>set xs. \<forall>b\<in>set xs. a = b)"
  with rounded_moments_strict [OF assms(1,2)]
  show "Mn (rounded_moments xs) < Mw (rounded_moments xs)" "1 < PDI (rounded_moments xs)"
    by blast+
qed

theorem moments_ordering_witness:
  "(\<exists>m. compute_moments_float64 [3, 5, 10] (Inr m) \<and> con_moments_float64 [3, 5, 10] (Some m)
        \<and> Mn m < Mw m \<and> 1 < PDI m)
   \<and> (\<exists>m. compute_moments_float64 [5, 5, 5] (Inr m) \<and> con_moments_float64 [5, 5, 5] (Some m)
        \<and> Mw m = Mn m \<and> PDI m = 1)"
proof
  from moments_ordering [of "[3, 5, 10]"]
  obtain m where "\<forall>r. compute_moments_float64 [3, 5, 10] r \<longleftrightarrow> r = Inr m"
    "\<forall>r. con_moments_float64 [3, 5, 10] r \<longleftrightarrow> r = Some m" "Mn m < Mw m" "1 < PDI m"
    by auto
  then show "\<exists>m. compute_moments_float64 [3, 5, 10] (Inr m)
      \<and> con_moments_float64 [3, 5, 10] (Some m) \<and> Mn m < Mw m \<and> 1 < PDI m"
    by blast
next
  from moments_ordering [of "[5, 5, 5]"]
  obtain m where "\<forall>r. compute_moments_float64 [5, 5, 5] r \<longleftrightarrow> r = Inr m"
    "\<forall>r. con_moments_float64 [5, 5, 5] r \<longleftrightarrow> r = Some m" "Mw m = Mn m" "PDI m = 1"
    by auto
  then show "\<exists>m. compute_moments_float64 [5, 5, 5] (Inr m)
      \<and> con_moments_float64 [5, 5, 5] (Some m) \<and> Mw m = Mn m \<and> PDI m = 1"
    by blast
qed

text \<open>
  Claim C2 as stated fails in both directions once the rounding counts. Two chains of
  length \<open>2 ^ 27 - 1\<close> are equal, yet comparison\_MWD\_con\_50.py computes Mw below Mn and
  a PDI of \<open>1 - 2 ^ - 53\<close>: the square \<open>18014398241046529\<close> of the length rounds to
  \<open>18014398241046528\<close>. The chains 35791394, 35791394 and 35791395 are not all equal,
  yet Mw is equal to Mn and the PDI is 1: the two quotients round to the same number.
\<close>

theorem moments_ordering_rounding:
  "compute_moments_float64 [134217727, 134217727]
     (Inr \<lparr>Mn = 134217727, Mw = 9007199187632127 / 67108864,
           PDI = 9007199254740991 / 9007199254740992\<rparr>)
   \<and> (9007199187632127 / 67108864 :: real) < 134217727
   \<and> (9007199254740991 / 9007199254740992 :: real) < 1
   \<and> compute_moments_float64 [35791394, 35791394, 35791395]
       (Inr \<lparr>Mn = 4803839629372075 / 134217728, Mw = 4803839629372075 / 134217728, PDI = 1\<rparr>)"
proof -
  have t: "to_float64 134217727 = 134217727" "to_float64 268435454 = 268435454"
    using to_float64_exact [of 134217727] to_float64_exact [of 268435454] by simp_all
  have r: "rnd64 268435454 = 268435454" "rnd64 134217727 = 134217727"
    using rnd64_of_nat [of 268435454] rnd64_of_nat [of 134217727] by simp_all
  have n: "np_sum [134217727, 134217727] = 268435454"
    by (simp add: np_sum_def int64_def)
  have "(18014398241046528 / 134217727 :: real) = 36028796482093056 / 268435454" by simp
  then have mw: "rnd64 (18014398241046528 / 134217727) = 9007199187632127 / 67108864"
    by (simp only: rnd64_Mw_134217727)
  have "compute_moments_float64 [134217727, 134217727]
     (Inr \<lparr>Mn = 134217727, Mw = rnd64 (18014398241046528 / 134217727),
           PDI = rnd64 (rnd64 (18014398241046528 / 134217727) / 134217727)\<rparr>)"
    using compute_moments_float64_pair [of 134217727 134217727]
    by (simp add: n t r rnd64_square_134217727 rnd64_sum_squares_134217727 Let_def)
  then have a: "compute_moments_float64 [134217727, 134217727]
     (Inr \<lparr>Mn = 134217727, Mw = 9007199187632127 / 67108864,
           PDI = 9007199254740991 / 9007199254740992\<rparr>)"
    by (simp only: mw rnd64_PDI_134217727)
  have "rounded_moments [35791394, 35791394, 35791395]
          = \<lparr>Mn = 4803839629372075 / 134217728, Mw = 4803839629372075 / 134217728, PDI = 1\<rparr>"
    by (simp add: rounded_moments_def rnd64_Mn_35791394 rnd64_Mw_35791394 rnd64_one Let_def)
  then have b: "compute_moments_float64 [35791394, 35791394, 35791395]
       (Inr \<lparr>Mn = 4803839629372075 / 134217728, Mw = 4803839629372075 / 134217728, PDI = 1\<rparr>)"
    using compute_moments_float64_exact_sums [of "[35791394, 35791394, 35791395]"]
    by simp
  from a b show ?thesis by simp
qed

text \<open>
  Claim C5 against the code. comparison\_MWD\_con\_50.py widens the lengths before it
  squares them; comparison\_MWD\_con.py squares them as \<^verbatim>\<open>int64\<close>. On one chain of
  length \<open>2 ^ 32\<close> the square wraps to 0 there and Mw is 0, where the other script
  computes \<open>2 ^ 32\<close>.
\<close>

theorem con_moments_squares_wrap:
  "con_moments [4294967296] = Some \<lparr>Mn = 4294967296, Mw = 0, PDI = 0\<rparr>
   \<and> compute_moments [4294967296] = Inr \<lparr>Mn = 4294967296, Mw = 4294967296, PDI = 1\<rparr>"
  by (simp add: con_moments_def compute_moments_def np_sum_def int64_def np_mean_def)

section \<open>Properties of the filter and of the density estimators\<close>

lemma trapz_divide: "trapz (map (\<lambda>v. v / c) ys) xs = trapz ys xs / c"
  by (induction ys xs rule: trapz.induct) (simp_all add: add_divide_distrib distrib_left)

lemma trapz_zero: "trapz (map (\<lambda>v. 0) (ys :: real list)) xs = 0"
  by (induction ys xs rule: trapz.induct) simp_all

lemma trapz_self: "xs \<noteq> [] \<Longrightarrow> trapz xs xs = ((last xs)\<^sup>2 - (hd xs)\<^sup>2) / 2"
proof (induction xs rule: induct_list012)
  case 1
  then show ?case by simp
next
  case (2 x)
  then show ?case by simp
next
  case (3 x y zs)
  then show ?case
    by (simp add: power2_eq_square algebra_simps add_divide_distrib diff_divide_distrib)
qed

lemma length_linspace: "length (linspace a b n) = n"
  by (simp add: linspace_def)

lemma hd_linspace: "0 < n \<Longrightarrow> hd (linspace a b n) = a"
  by (simp add: linspace_def hd_map)

lemma last_linspace: "1 < n \<Longrightarrow> last (linspace a b n) = b"
  by (simp add: linspace_def last_map)

lemma linspace_ge: "a \<le> b \<Longrightarrow> x \<in> set (linspace a b n) \<Longrightarrow> a \<le> x"
  by (auto simp: linspace_def)

lemma w_unnormalized_one:
  "\<forall>x\<in>set xs. 1 / 10 ^ 9 \<le> x \<Longrightarrow> w_unnormalized (\<lambda>x. 1) xs = xs"
  by (induction xs) (auto simp: w_unnormalized_def)

lemma norm_factor_one:
  assumes "1 / 10 ^ 9 \<le> a" "a \<le> b"
  shows "norm_factor (\<lambda>x. 1) (linspace a b 500) = (b\<^sup>2 - a\<^sup>2) / 2"
proof -
  have "\<forall>x\<in>set (linspace a b 500). 1 / 10 ^ 9 \<le> x"
    using assms linspace_ge [of a b _ 500] by fastforce
  then have "w_unnormalized (\<lambda>x. 1) (linspace a b 500) = linspace a b 500"
    by (rule w_unnormalized_one)
  moreover have "linspace a b 500 \<noteq> []"
    using length_linspace [of a b 500] by auto
  ultimately show ?thesis
    by (simp add: norm_factor_def trapz_self hd_linspace last_linspace)
qed

lemma norm_factor_zero: "norm_factor (\<lambda>x. 0) xs = 0"
  by (simp add: norm_factor_def w_unnormalized_def trapz_zero)

lemma x_grid_example: "x_grid [3, 4, 5] 4 = linspace (13 / 5) (27 / 5) 500"
  by (simp add: x_grid_def)

lemma linspace_Suc:
  "linspace a b (Suc n) = map (\<lambda>i. a + real i * ((b - a) / real n)) [0..<Suc n]"
  by (simp add: linspace_def)

lemma upt_Suc_shift: "[0..<Suc n] = 0 # map Suc [0..<n]"
  by (simp only: map_Suc_upt upt_conv_Cons [of 0 "Suc n"])

lemma tl_linspace:
  "tl (linspace a b (Suc n)) = map (\<lambda>i. a + real (Suc i) * ((b - a) / real n)) [0..<n]"
  by (simp only: linspace_Suc upt_Suc_shift list.map list.sel map_map comp_def)

lemma butlast_linspace:
  "butlast (linspace a b (Suc n)) = map (\<lambda>i. a + real i * ((b - a) / real n)) [0..<n]"
  by (simp add: linspace_Suc)

lemma map2_same:
  "map2 f (map g xs) (map h xs) = map (\<lambda>x. f (g x) (h x)) xs"
  by (induction xs) simp_all

lemma diff_linspace: "diff (linspace a b (Suc n)) = replicate n ((b - a) / real n)"
proof -
  define d where "d = (b - a) / real n"
  have "(\<lambda>i. a + real (Suc i) * d - (a + real i * d)) = (\<lambda>i. d)"
    by (simp add: algebra_simps)
  then have "map (\<lambda>i. a + real (Suc i) * d - (a + real i * d)) [0..<n] = replicate n d"
    by (simp add: map_replicate_const)
  then show ?thesis
    unfolding diff_def tl_linspace butlast_linspace map2_same d_def .
qed

lemma histogram_range_lt: "histogram_range a = (f, l) \<Longrightarrow> f < l"
proof -
  assume h: "histogram_range a = (f, l)"
  show ?thesis
  proof (cases "a = []")
    case True
    with h show ?thesis by (auto simp: histogram_range_def)
  next
    case False
    then have le: "Min (set a) \<le> Max (set a)" by simp
    show ?thesis
    proof (cases "Min (set a) = Max (set a)")
      case True
      with h False show ?thesis by (auto simp: histogram_range_def Let_def)
    next
      case ne: False
      with le have "Min (set a) < Max (set a)" by linarith
      with h False ne show ?thesis by (auto simp: histogram_range_def Let_def)
    qed
  qed
qed

lemma area_normalized:
  fixes t d :: real
  assumes "t \<noteq> 0" "d \<noteq> 0" "length wcs = n"
  shows "sum_list (map2 (\<lambda>v w. v * w) (map2 (\<lambda>wc w. wc / (t * w)) wcs (replicate n d)) (replicate n d))
           = sum_list wcs / t"
  using assms(3)
proof (induction wcs arbitrary: n)
  case Nil
  then show ?case by simp
next
  case (Cons wc wcs)
  then obtain k where k: "n = Suc k" "length wcs = k" by (cases n) auto
  with Cons.IH [of k] assms(1,2) show ?case
    by (simp add: add_divide_distrib)
qed

lemma length_weight_counts: "length (weight_counts data bins) = bins"
  by (simp add: weight_counts_def np_histogram_def length_linspace split: prod.splits)

lemma histogram_unit_area:
  assumes "calculate_weight_fraction_histogram data bins = Some h" "\<not> total_weight_warning h"
  shows "area h = 1"
proof -
  obtain f l where r: "histogram_range data = (f, l)" by (cases "histogram_range data")
  then have fl: "f < l" by (rule histogram_range_lt)
  from assms have bins: "0 < bins"
    by (auto simp: calculate_weight_fraction_histogram_def split: if_splits)
  have e: "snd (np_histogram data bins) = linspace f l (Suc bins)"
    by (simp add: np_histogram_def r)
  from assms bins have t: "0 < total_weight data bins"
    by (auto simp: calculate_weight_fraction_histogram_def Let_def split: prod.splits if_splits)
  with assms bins e have h: "bin_edges h = linspace f l (Suc bins)"
      "weight_fraction h = map2 (\<lambda>wc w. wc / (total_weight data bins * w))
                            (weight_counts data bins) (diff (linspace f l (Suc bins)))"
    by (auto simp: calculate_weight_fraction_histogram_def Let_def split: prod.splits)
  from fl bins have d: "(l - f) / real bins \<noteq> 0" by simp
  have "area h = sum_list (weight_counts data bins) / total_weight data bins"
    unfolding area_def h diff_linspace
    using t d by (intro area_normalized) (simp_all add: length_weight_counts)
  with t show ?thesis by (simp add: total_weight_def)
qed

lemma histogram_range_pos:
  assumes "data \<noteq> []" "\<forall>x\<in>set data. 1 \<le> x" "histogram_range data = (f, l)"
  shows "0 < f"
proof -
  from assms(1,2) have "1 \<le> Min (set data)" by simp
  then have m: "1 \<le> real_of_int (Min (set data))" by linarith
  from assms(1,3)
  have "f = real_of_int (Min (set data)) - 1 / 2 \<or> f = real_of_int (Min (set data))"
    by (auto simp: histogram_range_def Let_def split: if_splits)
  with m show ?thesis by linarith
qed

lemma weight_counts_map:
  assumes "histogram_range data = (f, l)"
  shows "weight_counts data bins =
           map (\<lambda>i. real (length (filter (\<lambda>x. bin_index f l bins x = i) data))
                      * (1 / 2 * (f + real (Suc i) * ((l - f) / real bins)
                                   + (f + real i * ((l - f) / real bins)))))
             [0..<bins]"
  by (simp add: weight_counts_def np_histogram_def assms tl_linspace butlast_linspace map2_same)

lemma total_weight_pos:
  assumes "data \<noteq> []" "\<forall>x\<in>set data. 1 \<le> x" "0 < bins"
  shows "0 < total_weight data bins"
proof -
  obtain f l where r: "histogram_range data = (f, l)" by (cases "histogram_range data")
  then have fl: "f < l" by (rule histogram_range_lt)
  from assms(1,2) r have f: "0 < f" by (rule histogram_range_pos)
  define ctr where "ctr i = 1 / 2 * (f + real (Suc i) * ((l - f) / real bins)
                                   + (f + real i * ((l - f) / real bins)))" for i
  define cnt where "cnt i = length (filter (\<lambda>x. bin_index f l bins x = i) data)" for i
  have step: "0 \<le> (l - f) / real bins" using fl by simp
  have ctr: "0 < ctr i" for i
  proof -
    have "0 \<le> real (Suc i) * ((l - f) / real bins)" "0 \<le> real i * ((l - f) / real bins)"
      using step by (simp_all only: mult_nonneg_nonneg of_nat_0_le_iff)
    with f have "0 < f + real (Suc i) * ((l - f) / real bins)
                     + (f + real i * ((l - f) / real bins))"
      by linarith
    then show ?thesis unfolding ctr_def by simp
  qed
  define k where "k = bin_index f l bins (hd data)"
  from assms(3) have k: "k < bins" by (simp add: k_def bin_index_def)
  from assms(1) have "hd data \<in> set (filter (\<lambda>x. bin_index f l bins x = k) data)"
    by (simp add: k_def)
  then have "filter (\<lambda>x. bin_index f l bins x = k) data \<noteq> []" by fastforce
  then have "1 \<le> real (cnt k)" by (simp add: cnt_def Suc_le_eq)
  with ctr [of k] have tk: "0 < real (cnt k) * ctr k" by simp
  have "real (cnt k) * ctr k \<le> (\<Sum>i\<in>set [0..<bins]. real (cnt i) * ctr i)"
  proof (rule member_le_sum)
    show "k \<in> set [0..<bins]" using k by simp
    show "0 \<le> real (cnt x) * ctr x" for x using ctr [of x] by simp
    show "finite (set [0..<bins])" by simp
  qed
  also have "\<dots> = total_weight data bins"
    by (simp only: total_weight_def weight_counts_map [OF r] cnt_def ctr_def
        interv_sum_list_conv_sum_set_nat)
  finally show ?thesis using tk by linarith
qed

lemma histogram_succeeds:
  assumes "data \<noteq> []" "\<forall>x\<in>set data. 1 \<le> x" "0 < bins"
  shows "\<exists>h. calculate_weight_fraction_histogram data bins = Some h \<and> \<not> total_weight_warning h"
  using total_weight_pos [OF assms] assms(3)
  by (simp add: calculate_weight_fraction_histogram_def Let_def split: prod.splits)

lemma kernel_unit_area:
  assumes "weight_fraction_density gaussian_kde fl mn = Some (xs, ys, False)"
  shows "trapz ys xs = 1"
proof -
  from assms obtain kde where k: "gaussian_kde fl = Some kde"
    by (auto simp: weight_fraction_density_def split: option.splits)
  with assms have n: "\<not> norm_factor kde (x_grid fl mn) \<le> 1 / 10 ^ 9"
    and x: "xs = x_grid fl mn"
    and y: "ys = map (\<lambda>v. v / norm_factor kde xs) (w_unnormalized kde xs)"
    by (auto simp: weight_fraction_density_def Let_def split: if_splits)
  from n x have "norm_factor kde xs \<noteq> 0" by auto
  then show ?thesis
    by (simp add: y trapz_divide norm_factor_def [symmetric])
qed

lemma con_unit_area:
  assumes "con_density gaussian_kde lengths = Some (x, y)"
  shows "trapz y x = 1"
proof -
  from assms obtain kde where k: "gaussian_kde lengths lengths = Some kde"
    by (auto simp: con_density_def split: option.splits)
  with assms have n: "trapz (map kde x) x \<noteq> 0"
    and y: "y = map (\<lambda>v. v / trapz (map kde x) x) (map kde x)"
    by (auto simp: con_density_def Let_def split: if_splits)
  show ?thesis
    by (subst y, subst trapz_divide) (use n in simp)
qed

lemma bool_index_ge_mask: "bool_index a (ge_mask a b) = filter (\<lambda>x. b \<le> x) a"
  by (induction a) (simp_all add: bool_index_def ge_mask_def)

lemma length_w_unnormalized: "length (w_unnormalized kde xs) = length xs"
  by (simp add: w_unnormalized_def)

lemma length_x_grid: "length (x_grid fl mn) = 500"
  by (simp add: x_grid_def Let_def length_linspace)

lemma weight_fraction_density_zero:
  assumes "gaussian_kde fl = Some kde" "fl \<noteq> []" "norm_factor kde (x_grid fl mn) \<le> 1 / 10 ^ 9"
  shows "weight_fraction_density gaussian_kde fl mn = Some (x_grid fl mn, replicate 500 0, True)"
  using assms
  by (simp add: weight_fraction_density_def Let_def map_replicate_const length_w_unnormalized
      length_x_grid)

lemma process_filter:
  assumes "process_and_get_mwd_data gaussian_kde fs filepath = Inr d"
  shows "\<exists>chain_lengths. snd (read_chain_lengths_con_50 fs filepath) = Some chain_lengths
           \<and> raw_data d = filter (\<lambda>x. 3 \<le> x) chain_lengths
           \<and> removed_chains d = length chain_lengths - length (raw_data d)
           \<and> raw_data d \<noteq> []"
  using assms
  by (auto simp: process_and_get_mwd_data_def Let_def bool_index_ge_mask
      split: option.splits if_splits sum.splits prod.splits)

lemma process_no_valid_chains:
  assumes "snd (read_chain_lengths_con_50 fs filepath) = Some chain_lengths"
    "chain_lengths \<noteq> []" "filter (\<lambda>x. 3 \<le> x) chain_lengths = []"
  shows "process_and_get_mwd_data gaussian_kde fs filepath = Inl No_valid_chains"
  using assms by (simp add: process_and_get_mwd_data_def bool_index_ge_mask)

lemma compute_moments_345:
  "compute_moments [3, 4, 5] = Inr \<lparr>Mn = 4, Mw = 50 / 12, PDI = 50 / 12 / 4\<rparr>"
  by (simp add: compute_moments_def np_sum_def int64_def np_mean_def)

lemma read_12345:
  "read_chain_lengths_con_50 (Map.empty(''f'' \<mapsto> File ''1 2 3 4 5'')) ''f''
     = (None, Some [1, 2, 3, 4, 5])"
  by (simp add: read_chain_lengths_con_50_def path_exists_def split_def isspace_def isdigit_def strip_def
      digit_char_def py_int_def decimal_char_def dec_def int_max_str_digits_def digit_value_def)

lemma process_12345:
  "process_and_get_mwd_data (\<lambda>a. Some (\<lambda>x. 0)) (Map.empty(''f'' \<mapsto> File ''1 2 3 4 5'')) ''f''
     = Inr \<lparr>x_vals = x_grid [3, 4, 5] 4, y_vals = replicate 500 0, raw_data = [3, 4, 5],
            stats = \<lparr>Mn = 4, Mw = 50 / 12, PDI = 50 / 12 / 4\<rparr>, removed_chains = 2,
            normalization_warning = True\<rparr>"
proof -
  have f: "bool_index [1, 2, 3, 4, 5] (ge_mask [1, 2, 3, 4, 5] 3) = [3, 4, 5 :: int]"
    by (simp add: bool_index_ge_mask)
  have "norm_factor (\<lambda>x. 0) (x_grid [3, 4, 5] 4) \<le> 1 / 10 ^ 9"
    by (simp only: norm_factor_zero) simp
  then have w: "weight_fraction_density (\<lambda>a. Some (\<lambda>x. 0)) [3, 4, 5] 4
             = Some (x_grid [3, 4, 5] 4, replicate 500 0, True)"
    by (intro weight_fraction_density_zero) simp_all
  show ?thesis
    by (simp add: process_and_get_mwd_data_def Let_def read_12345 f compute_moments_345 w)
qed

lemma kernel_one_345:
  "weight_fraction_density (\<lambda>a. Some (\<lambda>x. 1)) [3, 4, 5] 4
     = Some (x_grid [3, 4, 5] 4,
             map (\<lambda>v. v / (56 / 5)) (w_unnormalized (\<lambda>x. 1) (x_grid [3, 4, 5] 4)), False)"
proof -
  have "norm_factor (\<lambda>x. 1) (x_grid [3, 4, 5] 4) = ((27 / 5)\<^sup>2 - (13 / 5)\<^sup>2) / 2"
    by (simp only: x_grid_example) (rule norm_factor_one, simp_all)
  then have n: "norm_factor (\<lambda>x. 1) (x_grid [3, 4, 5] 4) = 56 / 5"
    by (simp add: power2_eq_square)
  show ?thesis
    by (simp add: weight_fraction_density_def Let_def n)
qed

lemma histogram_345:
  "calculate_weight_fraction_histogram [3, 4, 5] 2
     = Some \<lparr>bin_edges = [3, 4, 5], weight_fraction = [7 / 25, 18 / 25],
             bin_centers = [7 / 2, 9 / 2], total_weight_warning = False\<rparr>"
  by (simp add: calculate_weight_fraction_histogram_def total_weight_def weight_counts_def
      np_histogram_def histogram_range_def linspace_def bin_index_def diff_def Let_def
      upt_conv_Cons)

lemma histogram_00:
  "total_weight [0, 0] 1 = 0"
  "calculate_weight_fraction_histogram [0, 0] 1
     = Some \<lparr>bin_edges = [- (1 / 2), 1 / 2], weight_fraction = [0],
             bin_centers = [0], total_weight_warning = True\<rparr>"
  by (simp_all add: calculate_weight_fraction_histogram_def total_weight_def weight_counts_def
      np_histogram_def histogram_range_def linspace_def bin_index_def diff_def Let_def
      upt_conv_Cons)

lemma con_density_345:
  "con_density (\<lambda>a w. Some (\<lambda>x. x)) [3, 4, 5]
     = Some (linspace 3 5 500, map (\<lambda>v. v / 8) (linspace 3 5 500))"
proof -
  have "linspace 3 5 500 \<noteq> []"
    using length_linspace [of 3 5 500] by auto
  then have "trapz (linspace 3 5 500) (linspace 3 5 500) = (5\<^sup>2 - 3\<^sup>2) / 2"
    by (simp add: trapz_self hd_linspace last_linspace)
  then have t: "trapz (linspace 3 5 500) (linspace 3 5 500) = 8"
    by simp
  show ?thesis
    by (simp add: con_density_def Let_def t)
qed

text \<open>
  Claim C7. The mask selection of line 55 returns the elements that are at least the
  bound, in their order, and the count of removed chains is the length of the sample
  minus the length of the filtered one, which is the number of elements below the bound;
  1, 2, 3, 4, 5 with bound 3 gives 3, 4, 5 and 2 removed. A result of
  \<^verbatim>\<open>process_and_get_mwd_data\<close> carries the sample filtered at 3, and when nothing is left
  the function returns before any statistic is computed.
\<close>

theorem filter_min_length:
  "bool_index a (ge_mask a min_len) = filter (\<lambda>x. min_len \<le> x) a
   \<and> subseq (bool_index a (ge_mask a min_len)) a
   \<and> length a - length (bool_index a (ge_mask a min_len)) = length (filter (\<lambda>x. x < min_len) a)
   \<and> bool_index [1, 2, 3, 4, 5] (ge_mask [1, 2, 3, 4, 5] 3) = [3, 4, 5 :: int]
   \<and> length [1, 2, 3, 4, 5 :: int]
        - length (bool_index [1, 2, 3, 4, 5 :: int] (ge_mask [1, 2, 3, 4, 5] 3)) = 2
   \<and> (process_and_get_mwd_data gaussian_kde fs filepath = Inr d
        \<longrightarrow> (\<exists>chain_lengths. snd (read_chain_lengths_con_50 fs filepath) = Some chain_lengths
               \<and> raw_data d = filter (\<lambda>x. 3 \<le> x) chain_lengths
               \<and> removed_chains d = length chain_lengths - length (raw_data d)
               \<and> raw_data d \<noteq> []))
   \<and> (snd (read_chain_lengths_con_50 fs filepath) = Some chain_lengths
        \<and> chain_lengths \<noteq> [] \<and> filter (\<lambda>x. 3 \<le> x) chain_lengths = []
        \<longrightarrow> process_and_get_mwd_data gaussian_kde fs filepath = Inl No_valid_chains)"
proof -
  have "length a - length (filter (\<lambda>x. min_len \<le> x) a) = length (filter (\<lambda>x. x < min_len) a)"
    using sum_length_filter_compl [of "\<lambda>x. min_len \<le> x" a]
    by (simp add: not_le)
  then show ?thesis
    using process_filter [of gaussian_kde fs filepath d]
      process_no_valid_chains [of fs filepath chain_lengths gaussian_kde]
    by (simp add: bool_index_ge_mask)
qed

theorem filter_min_length_witness:
  "process_and_get_mwd_data (\<lambda>a. Some (\<lambda>x. 0)) (Map.empty(''f'' \<mapsto> File ''1 2 3 4 5'')) ''f''
     = Inr \<lparr>x_vals = x_grid [3, 4, 5] 4, y_vals = replicate 500 0, raw_data = [3, 4, 5],
            stats = \<lparr>Mn = 4, Mw = 50 / 12, PDI = 50 / 12 / 4\<rparr>, removed_chains = 2,
            normalization_warning = True\<rparr>
   \<and> (\<exists>chain_lengths.
         snd (read_chain_lengths_con_50 (Map.empty(''f'' \<mapsto> File ''1 2 3 4 5'')) ''f'')
           = Some chain_lengths
         \<and> [3, 4, 5] = filter (\<lambda>x. 3 \<le> x) chain_lengths
         \<and> 2 = length chain_lengths - length [3, 4, 5 :: int])
   \<and> snd (read_chain_lengths_con_50 (Map.empty(''f'' \<mapsto> File ''1 2'')) ''f'') = Some [1, 2]
   \<and> process_and_get_mwd_data (\<lambda>a. Some (\<lambda>x. 0)) (Map.empty(''f'' \<mapsto> File ''1 2'')) ''f''
       = Inl No_valid_chains"
proof -
  let ?d = "\<lparr>x_vals = x_grid [3, 4, 5] 4, y_vals = replicate 500 0, raw_data = [3, 4, 5],
            stats = \<lparr>Mn = 4, Mw = 50 / 12, PDI = 50 / 12 / 4\<rparr>, removed_chains = 2,
            normalization_warning = True\<rparr>"
  have r: "snd (read_chain_lengths_con_50 (Map.empty(''f'' \<mapsto> File ''1 2'')) ''f'') = Some [1, 2]"
    by (simp add: read_chain_lengths_con_50_def path_exists_def split_def isspace_def isdigit_def strip_def
        digit_char_def py_int_def decimal_char_def dec_def int_max_str_digits_def digit_value_def)
  have t1: "process_and_get_mwd_data (\<lambda>a. Some (\<lambda>x. 0)) (Map.empty(''f'' \<mapsto> File ''1 2'')) ''f''
       = Inl No_valid_chains"
    using filter_min_length [where fs = "Map.empty(''f'' \<mapsto> File ''1 2'')" and filepath = "''f''"
        and chain_lengths = "[1, 2]" and gaussian_kde = "\<lambda>a. Some (\<lambda>x. 0)" and a = "[]"
        and min_len = 0 and d = ?d] r
    by simp
  have t2: "\<exists>chain_lengths.
         snd (read_chain_lengths_con_50 (Map.empty(''f'' \<mapsto> File ''1 2 3 4 5'')) ''f'')
           = Some chain_lengths
         \<and> [3, 4, 5] = filter (\<lambda>x. 3 \<le> x) chain_lengths
         \<and> 2 = length chain_lengths - length [3, 4, 5 :: int]"
    using filter_min_length [where fs = "Map.empty(''f'' \<mapsto> File ''1 2 3 4 5'')"
        and filepath = "''f''" and chain_lengths = "[]" and gaussian_kde = "\<lambda>a. Some (\<lambda>x. 0)"
        and a = "[]" and min_len = 0 and d = ?d] process_12345
    by simp
  from r t1 t2 process_12345 show ?thesis by simp
qed

text \<open>
  Claim C3. Whenever the normalization succeeds, each estimator returns a curve of area
  exactly 1 in real arithmetic: the trapezoidal integral of the kernel curve of
  comparison\_MWD\_con\_50.py over its grid, the sum of value times bin width of the
  histogram, and the trapezoidal integral of the curve of comparison\_MWD\_con.py. For
  the histogram the normalization succeeds on every non-empty sample of elements at
  least 3 and every positive number of bins. This holds for every density that
  \<^verbatim>\<open>gaussian_kde\<close> may return.
\<close>

theorem density_estimators_unit_area:
  "(weight_fraction_density gaussian_kde fl mn = Some (xs, ys, False) \<longrightarrow> trapz ys xs = 1)
   \<and> (calculate_weight_fraction_histogram data bins = Some h \<and> \<not> total_weight_warning h
        \<longrightarrow> area h = 1)
   \<and> (data \<noteq> [] \<and> (\<forall>x\<in>set data. 3 \<le> x) \<and> 0 < bins
        \<longrightarrow> (\<exists>h. calculate_weight_fraction_histogram data bins = Some h
                 \<and> \<not> total_weight_warning h \<and> area h = 1))
   \<and> (con_density gaussian_kde_w lengths = Some (x, y) \<longrightarrow> trapz y x = 1)"
proof (intro conjI impI)
  assume "weight_fraction_density gaussian_kde fl mn = Some (xs, ys, False)"
  then show "trapz ys xs = 1" by (rule kernel_unit_area)
next
  assume "calculate_weight_fraction_histogram data bins = Some h \<and> \<not> total_weight_warning h"
  then show "area h = 1" using histogram_unit_area by blast
next
  assume a: "data \<noteq> [] \<and> (\<forall>x\<in>set data. 3 \<le> x) \<and> 0 < bins"
  then have "\<forall>x\<in>set data. 1 \<le> x" by fastforce
  with a obtain h where "calculate_weight_fraction_histogram data bins = Some h"
    "\<not> total_weight_warning h"
    using histogram_succeeds [of data bins] by blast
  then show "\<exists>h. calculate_weight_fraction_histogram data bins = Some h
                 \<and> \<not> total_weight_warning h \<and> area h = 1"
    using histogram_unit_area by blast
next
  assume "con_density gaussian_kde_w lengths = Some (x, y)"
  then show "trapz y x = 1" by (rule con_unit_area)
qed

theorem density_estimators_unit_area_witness:
  "weight_fraction_density (\<lambda>a. Some (\<lambda>x. 1)) [3, 4, 5] 4
     = Some (x_grid [3, 4, 5] 4,
             map (\<lambda>v. v / (56 / 5)) (w_unnormalized (\<lambda>x. 1) (x_grid [3, 4, 5] 4)), False)
   \<and> trapz (map (\<lambda>v. v / (56 / 5)) (w_unnormalized (\<lambda>x. 1) (x_grid [3, 4, 5] 4)))
        (x_grid [3, 4, 5] 4) = 1
   \<and> calculate_weight_fraction_histogram [3, 4, 5] 2
       = Some \<lparr>bin_edges = [3, 4, 5], weight_fraction = [7 / 25, 18 / 25],
               bin_centers = [7 / 2, 9 / 2], total_weight_warning = False\<rparr>
   \<and> area \<lparr>bin_edges = [3, 4, 5], weight_fraction = [7 / 25, 18 / 25],
            bin_centers = [7 / 2, 9 / 2], total_weight_warning = False\<rparr> = 1
   \<and> con_density (\<lambda>a w. Some (\<lambda>x. x)) [3, 4, 5]
       = Some (linspace 3 5 500, map (\<lambda>v. v / 8) (linspace 3 5 500))
   \<and> trapz (map (\<lambda>v. v / 8) (linspace 3 5 500)) (linspace 3 5 500) = 1"
  using density_estimators_unit_area
    [where gaussian_kde = "\<lambda>a. Some (\<lambda>x. 1)" and fl = "[3, 4, 5]" and mn = 4
       and xs = "x_grid [3, 4, 5] 4"
       and ys = "map (\<lambda>v. v / (56 / 5)) (w_unnormalized (\<lambda>x. 1) (x_grid [3, 4, 5] 4))"
       and data = "[3, 4, 5]" and bins = 2
       and h = "\<lparr>bin_edges = [3, 4, 5], weight_fraction = [7 / 25, 18 / 25],
                  bin_centers = [7 / 2, 9 / 2], total_weight_warning = False\<rparr>"
       and gaussian_kde_w = "\<lambda>a w. Some (\<lambda>x. x)" and lengths = "[3, 4, 5]"
       and x = "linspace 3 5 500" and y = "map (\<lambda>v. v / 8) (linspace 3 5 500)"]
    kernel_one_345 histogram_345 con_density_345
  by simp

text \<open>
  Claim C4. In comparison\_MWD\_con\_50.py the kernel estimator divides by the integral
  only when it is above \<open>1 / 10 ^ 9\<close>: at or below it, the warning is printed and the
  curve is 500 zeros. The histogram estimator divides by the total weight only when it is
  positive: at or below 0, the warning is printed and the values are all 0.
\<close>

theorem normalization_guards:
  "(gaussian_kde fl = Some kde \<and> fl \<noteq> [] \<and> norm_factor kde (x_grid fl mn) \<le> 1 / 10 ^ 9
      \<longrightarrow> weight_fraction_density gaussian_kde fl mn = Some (x_grid fl mn, replicate 500 0, True))
   \<and> (gaussian_kde fl = Some kde
        \<and> weight_fraction_density gaussian_kde fl mn = Some (xs, ys, False)
      \<longrightarrow> 1 / 10 ^ 9 < norm_factor kde xs
          \<and> ys = map (\<lambda>v. v / norm_factor kde xs) (w_unnormalized kde xs))
   \<and> (0 < bins \<and> total_weight data bins \<le> 0
      \<longrightarrow> (\<exists>h. calculate_weight_fraction_histogram data bins = Some h
               \<and> weight_fraction h = replicate bins 0 \<and> total_weight_warning h))
   \<and> (calculate_weight_fraction_histogram data bins = Some h \<and> \<not> total_weight_warning h
      \<longrightarrow> 0 < total_weight data bins
          \<and> weight_fraction h
              = map2 (\<lambda>wc w. wc / (total_weight data bins * w))
                  (weight_counts data bins) (diff (bin_edges h)))"
proof (intro conjI impI)
  assume "gaussian_kde fl = Some kde \<and> fl \<noteq> [] \<and> norm_factor kde (x_grid fl mn) \<le> 1 / 10 ^ 9"
  then have "gaussian_kde fl = Some kde" "fl \<noteq> []"
    "norm_factor kde (x_grid fl mn) \<le> 1 / 10 ^ 9"
    by blast+
  then show "weight_fraction_density gaussian_kde fl mn = Some (x_grid fl mn, replicate 500 0, True)"
    by (rule weight_fraction_density_zero)
next
  assume a: "gaussian_kde fl = Some kde
        \<and> weight_fraction_density gaussian_kde fl mn = Some (xs, ys, False)"
  then show "1 / 10 ^ 9 < norm_factor kde xs"
    by (auto simp: weight_fraction_density_def Let_def split: if_splits)
  from a show "ys = map (\<lambda>v. v / norm_factor kde xs) (w_unnormalized kde xs)"
    by (auto simp: weight_fraction_density_def Let_def split: if_splits)
next
  assume "0 < bins \<and> total_weight data bins \<le> 0"
  then show "\<exists>h. calculate_weight_fraction_histogram data bins = Some h
               \<and> weight_fraction h = replicate bins 0 \<and> total_weight_warning h"
    by (simp add: calculate_weight_fraction_histogram_def Let_def np_histogram_def
        map_replicate_const split: prod.splits)
next
  assume a: "calculate_weight_fraction_histogram data bins = Some h \<and> \<not> total_weight_warning h"
  then show "0 < total_weight data bins"
    by (auto simp: calculate_weight_fraction_histogram_def Let_def split: prod.splits if_splits)
  from a show "weight_fraction h
              = map2 (\<lambda>wc w. wc / (total_weight data bins * w))
                  (weight_counts data bins) (diff (bin_edges h))"
    by (auto simp: calculate_weight_fraction_histogram_def Let_def split: prod.splits if_splits)
qed

theorem normalization_guards_witness:
  "weight_fraction_density (\<lambda>a. Some (\<lambda>x. 0)) [3, 4, 5] 4
     = Some (x_grid [3, 4, 5] 4, replicate 500 0, True)
   \<and> 1 / 10 ^ 9 < norm_factor (\<lambda>x. 1) (x_grid [3, 4, 5] 4)
   \<and> total_weight [0, 0] 1 = 0
   \<and> (\<exists>h. calculate_weight_fraction_histogram [0, 0] 1 = Some h
          \<and> weight_fraction h = [0] \<and> total_weight_warning h)
   \<and> 0 < total_weight [3, 4, 5] 2"
proof -
  have "norm_factor (\<lambda>x. 0) (x_grid [3, 4, 5] 4) \<le> 1 / 10 ^ 9"
    by (simp only: norm_factor_zero) simp
  then have a: "weight_fraction_density (\<lambda>a. Some (\<lambda>x. 0)) [3, 4, 5] 4
     = Some (x_grid [3, 4, 5] 4, replicate 500 0, True)"
    using normalization_guards [where gaussian_kde = "\<lambda>a. Some (\<lambda>x. 0)" and kde = "\<lambda>x. 0"
        and fl = "[3, 4, 5]" and mn = 4]
    by simp
  have b: "1 / 10 ^ 9 < norm_factor (\<lambda>x. 1) (x_grid [3, 4, 5] 4)"
    using normalization_guards [where gaussian_kde = "\<lambda>a. Some (\<lambda>x. 1)" and kde = "\<lambda>x. 1"
        and fl = "[3, 4, 5]" and mn = 4 and xs = "x_grid [3, 4, 5] 4"
        and ys = "map (\<lambda>v. v / (56 / 5)) (w_unnormalized (\<lambda>x. 1) (x_grid [3, 4, 5] 4))"]
      kernel_one_345
    by simp
  have c: "\<exists>h. calculate_weight_fraction_histogram [0, 0] 1 = Some h
          \<and> weight_fraction h = [0] \<and> total_weight_warning h"
    using normalization_guards [where data = "[0, 0]" and bins = 1] histogram_00(1)
    by simp
  have d: "0 < total_weight [3, 4, 5] 2"
    using normalization_guards [where data = "[3, 4, 5]" and bins = 2
        and h = "\<lparr>bin_edges = [3, 4, 5], weight_fraction = [7 / 25, 18 / 25],
                  bin_centers = [7 / 2, 9 / 2], total_weight_warning = False\<rparr>"]
      histogram_345
    by simp
  from a b c d histogram_00(1) show ?thesis by simp
qed

end
